theory Spec2Isabelle
  imports Complex_Main "HOL-Library.Sublist"
begin

section \<open>Text normalizer (utils.py, clean\_text)\<close>

text \<open>
  A Python \<open>str\<close> is modelled as a \<open>string\<close>: a list of characters with code points
  below 256. \<open>py_isspace\<close> is \<open>str.isspace\<close> on those code points: tab, line feed,
  vertical tab, form feed, carriage return, the separators \<open>0x1c\<close> to \<open>0x1f\<close>, the
  space, \<open>0x85\<close> and \<open>0xa0\<close>.
\<close>

definition py_isspace :: "char \<Rightarrow> bool" where
  "py_isspace c =
     (let n = (of_char c :: nat)
      in (9 \<le> n \<and> n \<le> 13) \<or> (28 \<le> n \<and> n \<le> 32) \<or> n = 133 \<or> n = 160)"

text \<open>
  \<open>text.split()\<close> without argument: the maximal runs of non-whitespace characters, in
  order. \<open>split_acc cur cs\<close> scans \<open>cs\<close> with the word \<open>cur\<close> read so far.
\<close>

fun split_acc :: "string \<Rightarrow> string \<Rightarrow> string list" where
  "split_acc cur [] = (if cur = [] then [] else [cur])"
| "split_acc cur (c # cs) =
     (if py_isspace c
      then (if cur = [] then split_acc [] cs else cur # split_acc [] cs)
      else split_acc (cur @ [c]) cs)"

definition py_split :: "string \<Rightarrow> string list" where
  "py_split text = split_acc [] text"

text \<open>\<open>sep.join(words)\<close>.\<close>

fun join :: "string \<Rightarrow> string list \<Rightarrow> string" where
  "join sep [] = []"
| "join sep [w] = w"
| "join sep (w # v # ws) = w @ sep @ join sep (v # ws)"

text \<open>
  \<open>clean_text(text)\<close>: \<open>text\<close> is \<open>Optional[str]\<close>; \<open>None\<close> and the empty string are
  falsy and give the empty string.
\<close>

definition clean_text :: "string option \<Rightarrow> string" where
  "clean_text text =
     (case text of
        None \<Rightarrow> []
      | Some t \<Rightarrow> if t \<noteq> [] then join '' '' (py_split t) else [])"

section \<open>Environment: network, parsers, log\<close>

text \<open>
  \<open>requests.get(url, timeout=10)\<close> followed by \<open>raise_for_status()\<close> either gives the
  body (\<open>response.content\<close>, bytes) or raises a \<open>RequestException\<close>.
\<close>

datatype response = Ok string | RequestException

datatype py_error = ValueError | OverflowError

text \<open>
  What the code reads from a parsed XML tree: the result of
  \<open>root.find(".//{*}Boletin")\<close> and of \<open>root.find("Boletin")\<close>, each \<open>None\<close> or an
  element, of which only \<open>.text\<close> (a string or \<open>None\<close>) is used.
\<close>

record xml_root =
  find_any_ns_Boletin :: "string option option"
  find_Boletin :: "string option option"

datatype xml_outcome = Xml_root xml_root | Xml_none | XMLSyntaxError

text \<open>
  What the code reads from a BeautifulSoup tree: for each \<open><a>\<close> tag in document order
  its \<open>href\<close> attribute (\<open>None\<close> when absent), and for each table of
  \<open>find_all('table')\<close> its \<open>get_text()\<close> and, for each row of \<open>find_all('tr')\<close>, the
  \<open>get_text()\<close> of each cell of \<open>find_all('td')\<close>.
\<close>

record table =
  table_text :: string
  table_rows :: "string list list"

record soup =
  anchors :: "string option list"
  soup_tables :: "table list"

text \<open>
  The world outside the program. \<open>http_get w k url\<close> is the outcome of the \<open>k\<close>-th HTTP
  request of the run when it asks for \<open>url\<close>, so the upstream may change over time.
  \<open>et_fromstring\<close> is lxml's recovering parser, \<open>beautifulsoup\<close> the constructor
  \<open>BeautifulSoup(content, 'lxml')\<close> (\<open>None\<close> when it raises), and \<open>parse_qs_prmID href\<close>
  is \<open>parse_qs(urlparse(href).query).get('prmID', [''])[0]\<close>.
\<close>

record env =
  http_get :: "nat \<Rightarrow> string \<Rightarrow> response"
  et_fromstring :: "string \<Rightarrow> xml_outcome"
  beautifulsoup :: "string \<Rightarrow> soup option"
  parse_qs_prmID :: "string \<Rightarrow> string"

datatype message =
    Attempt_failed nat string
  | Failed_to_fetch string int
  | XML_parsing_error
  | HTML_parsing_error
  | No_project_id string

datatype event = Sleep rat | Get string | Log_warning message | Log_error message

section \<open>Data model and program state (fetch\_urgencias.py)\<close>

record urgency =
  urgencia_fecha_inicio :: string
  urgencia_fecha_termino :: string
  urgencia_tipo :: string
  urgencia_oficio :: string
  urgencia_mensaje_ing :: string
  urgencia_mensaje_ret :: string

record output_row = urgency +
  vote_id :: string
  boletin :: string
  proyecto_id :: string

text \<open>
  The three module-level caches, the sequence of observable effects so far (sleeps,
  HTTP requests, log records) and the number of HTTP requests made.
\<close>

record state =
  vote_to_boletin :: "string \<rightharpoonup> string"
  boletin_to_project_id :: "string \<rightharpoonup> string"
  project_urgencies :: "string \<rightharpoonup> urgency list"
  events :: "event list"
  clock :: nat

definition init_state :: state where
  "init_state = \<lparr>vote_to_boletin = Map.empty, boletin_to_project_id = Map.empty,
     project_urgencies = Map.empty, events = [], clock = 0\<rparr>"

definition log_event :: "event \<Rightarrow> state \<Rightarrow> state" where
  "log_event e s = s\<lparr>events := events s @ [e]\<rparr>"

definition logging_warning :: "message \<Rightarrow> state \<Rightarrow> state" where
  "logging_warning m s = log_event (Log_warning m) s"

definition logging_error :: "message \<Rightarrow> state \<Rightarrow> state" where
  "logging_error m s = log_event (Log_error m) s"

text \<open>
  \<open>time.sleep(secs)\<close> raises \<open>ValueError\<close> on a negative length. Otherwise CPython
  converts the length to nanoseconds, as a double, and raises \<open>OverflowError\<close> unless the
  result is below \<open>2^63\<close>. The doubles next to \<open>2^63\<close> are 1024 apart, so for a length
  that is a double this is the case exactly when \<open>secs * 10^9 < 2^63 - 512\<close>: from
  about \<open>9.2e9\<close> seconds on the call raises. The lengths are rationals here; infinities
  and NaN, for which the call raises as well, are not among them.
\<close>

definition time_sleep :: "rat \<Rightarrow> state \<Rightarrow> py_error + state" where
  "time_sleep secs s =
     (if secs < 0 then Inl ValueError
      else if 2 ^ 63 - 512 \<le> secs * 10 ^ 9 then Inl OverflowError
      else Inr (log_event (Sleep secs) s))"

definition requests_get :: "env \<Rightarrow> string \<Rightarrow> state \<Rightarrow> response \<times> state" where
  "requests_get w url s =
     (http_get w (clock s) url, (log_event (Get url) s)\<lparr>clock := Suc (clock s)\<rparr>)"

section \<open>Resilient Fetcher (utils.py, fetch\_content)\<close>

text \<open>
  The loop \<open>for attempt in range(retries)\<close>, with \<open>n\<close> iterations left. \<open>Inr (Some c)\<close>
  is the \<open>return response.content\<close> inside the loop, \<open>Inr None\<close> the loop running out,
  \<open>Inl e\<close> an exception that is not a \<open>RequestException\<close> and so is not caught.
\<close>

fun fetch_attempts ::
  "env \<Rightarrow> string \<Rightarrow> rat \<Rightarrow> nat \<Rightarrow> nat \<Rightarrow> state \<Rightarrow> (py_error + string option) \<times> state" where
  "fetch_attempts w url sleep_time attempt 0 s = (Inr None, s)"
| "fetch_attempts w url sleep_time attempt (Suc n) s =
     (case time_sleep sleep_time s of
        Inl e \<Rightarrow> (Inl e, s)
      | Inr s1 \<Rightarrow>
          (case requests_get w url s1 of
             (Ok content, s2) \<Rightarrow> (Inr (Some content), s2)
           | (RequestException, s2) \<Rightarrow>
               (let s3 = logging_warning (Attempt_failed (attempt + 1) url) s2
                in case time_sleep (sleep_time * 2) s3 of
                     Inl e \<Rightarrow> (Inl e, s3)
                   | Inr s4 \<Rightarrow> fetch_attempts w url sleep_time (attempt + 1) n s4)))"

definition fetch_content ::
  "env \<Rightarrow> string \<Rightarrow> int \<Rightarrow> rat \<Rightarrow> state \<Rightarrow> (py_error + string option) \<times> state" where
  "fetch_content w url retries sleep_time s =
     (case fetch_attempts w url sleep_time 0 (nat retries) s of
        (Inl e, s') \<Rightarrow> (Inl e, s')
      | (Inr (Some content), s') \<Rightarrow> (Inr (Some content), s')
      | (Inr None, s') \<Rightarrow> (Inr None, logging_error (Failed_to_fetch url retries) s'))"

text \<open>
  \<open>fetch_content(url)\<close> as every caller writes it, with the defaults \<open>retries=3\<close> and
  \<open>sleep_time=0.5\<close>. For the lengths 0.5 and 1.0 \<open>time.sleep\<close> cannot raise (lemma
  \<open>fetch_content_default_returns\<close>), so the call has a result and no exception.
\<close>

definition fetch_content_default :: "env \<Rightarrow> string \<Rightarrow> state \<Rightarrow> string option \<times> state" where
  "fetch_content_default w url s =
     (case fetch_content w url 3 (1 / 2) s of
        (Inr content, s') \<Rightarrow> (content, s')
      | (Inl e, s') \<Rightarrow> (None, s'))"

section \<open>Parsers (utils.py, parse\_xml and parse\_html)\<close>

text \<open>\<open>content.replace(b'&nbsp;', b' ')\<close>.\<close>

fun replace_nbsp :: "string \<Rightarrow> string" where
  "replace_nbsp [] = []"
| "replace_nbsp (c # cs) =
     (if prefix ''&nbsp;'' (c # cs) then CHR '' '' # replace_nbsp (drop 5 cs)
      else c # replace_nbsp cs)"

definition parse_xml :: "env \<Rightarrow> string \<Rightarrow> state \<Rightarrow> xml_root option \<times> state" where
  "parse_xml w content s =
     (case et_fromstring w (replace_nbsp content) of
        Xml_root xroot \<Rightarrow> (Some xroot, s)
      | Xml_none \<Rightarrow> (None, s)
      | XMLSyntaxError \<Rightarrow> (None, logging_error XML_parsing_error s))"

definition parse_html :: "env \<Rightarrow> string \<Rightarrow> state \<Rightarrow> soup option \<times> state" where
  "parse_html w content s =
     (case beautifulsoup w content of
        Some sp \<Rightarrow> (Some sp, s)
      | None \<Rightarrow> (None, logging_error HTML_parsing_error s))"

section \<open>Resolution stages (fetch\_urgencias.py)\<close>

text \<open>\<open>sub in text\<close> on strings.\<close>

fun contains :: "string \<Rightarrow> string \<Rightarrow> bool" where
  "contains sub [] = (sub = [])"
| "contains sub (c # cs) = (prefix sub (c # cs) \<or> contains sub cs)"

definition vote_url :: "string \<Rightarrow> string" where
  "vote_url vote =
     ''https://opendata.camara.cl/camaradiputados/pages/legislativo/retornarVotacionDetalle.aspx?prmID=''
     @ vote"

definition tramitacion_url :: "string \<Rightarrow> string" where
  "tramitacion_url bol =
     ''https://www.camara.cl/legislacion/ProyectosDeLey/tramitacion.aspx?prmBoletin='' @ bol"

definition urgencias_url :: "string \<Rightarrow> string \<Rightarrow> string" where
  "urgencias_url project bol =
     ''https://www.camara.cl/legislacion/ProyectosDeLey/urgencias.aspx?prmID='' @ project
     @ ''&prmBOLETIN='' @ bol"

definition fetch_boletin_for_vote :: "env \<Rightarrow> string \<Rightarrow> state \<Rightarrow> string \<times> state" where
  "fetch_boletin_for_vote w vote s =
     (case vote_to_boletin s vote of
        Some bol \<Rightarrow> (bol, s)
      | None \<Rightarrow>
          (case fetch_content_default w (vote_url vote) s of
             (None, s1) \<Rightarrow> ([], s1)
           | (Some content, s1) \<Rightarrow>
               if content = [] then ([], s1)
               else (case parse_xml w content s1 of
                       (None, s2) \<Rightarrow> ([], s2)
                     | (Some xroot, s2) \<Rightarrow>
                         (let found = (case find_any_ns_Boletin xroot of
                                         None \<Rightarrow> find_Boletin xroot
                                       | Some el \<Rightarrow> Some el);
                              bol = (case found of None \<Rightarrow> [] | Some txt \<Rightarrow> clean_text txt)
                          in if bol \<noteq> []
                             then (bol, s2\<lparr>vote_to_boletin := (vote_to_boletin s2)(vote \<mapsto> bol)\<rparr>)
                             else (bol, s2)))))"

text \<open>
  \<open>soup.find('a', href=lambda x: x and 'urgencias.aspx' in x)\<close>: the \<open>href\<close> of the first
  anchor that has one containing the marker.
\<close>

fun find_link :: "string option list \<Rightarrow> string option" where
  "find_link [] = None"
| "find_link (None # hs) = find_link hs"
| "find_link (Some x # hs) =
     (if x \<noteq> [] \<and> contains ''urgencias.aspx'' x then Some x else find_link hs)"

definition fetch_proyecto_id_from_tramitacion :: "env \<Rightarrow> string \<Rightarrow> state \<Rightarrow> string \<times> state" where
  "fetch_proyecto_id_from_tramitacion w bol s =
     (if bol = [] then ([], s)
      else case boletin_to_project_id s bol of
        Some project \<Rightarrow> (project, s)
      | None \<Rightarrow>
          (case fetch_content_default w (tramitacion_url bol) s of
             (None, s1) \<Rightarrow> ([], s1)
           | (Some content, s1) \<Rightarrow>
               if content = [] then ([], s1)
               else (case parse_html w content s1 of
                       (None, s2) \<Rightarrow> ([], s2)
                     | (Some sp, s2) \<Rightarrow>
                         (case find_link (anchors sp) of
                            None \<Rightarrow> ([], s2)
                          | Some href \<Rightarrow>
                              (let prmID = parse_qs_prmID w href
                               in if prmID \<noteq> []
                                  then (prmID, s2\<lparr>boletin_to_project_id :=
                                                   (boletin_to_project_id s2)(bol \<mapsto> prmID)\<rparr>)
                                  else ([], s2))))))"

text \<open>The urgency-table locator: lines 98 to 130 of \<open>fetch_urgencias\<close>.\<close>

definition has_marker :: "table \<Rightarrow> bool" where
  "has_marker t =
     (contains ''Fecha Inicio'' (table_text t) \<or> contains ''Tipo de urgencia'' (table_text t))"

text \<open>The loop over \<open>tables\<close> with its \<open>break\<close>.\<close>

fun find_target_table :: "table list \<Rightarrow> table option" where
  "find_target_table [] = None"
| "find_target_table (t # ts) = (if has_marker t then Some t else find_target_table ts)"

definition u_data :: "string list \<Rightarrow> urgency" where
  "u_data cols =
     \<lparr>urgencia_fecha_inicio = clean_text (Some (cols ! 0)),
      urgencia_fecha_termino = clean_text (Some (cols ! 1)),
      urgencia_tipo = clean_text (Some (cols ! 2)),
      urgencia_oficio = clean_text (Some (cols ! 3)),
      urgencia_mensaje_ing = clean_text (Some (cols ! 4)),
      urgencia_mensaje_ret = (if length cols > 5 then clean_text (Some (cols ! 5)) else [])\<rparr>"

text \<open>
  The loop over \<open>rows[1:]\<close>, with the list \<open>urgencies\<close> built so far. \<open>u_data\<close> reads the
  cells 0 to 4 only behind the guard \<open>len(cols) < 5\<close>.
\<close>

fun urgency_rows :: "string list list \<Rightarrow> urgency list \<Rightarrow> urgency list" where
  "urgency_rows [] urgencies = urgencies"
| "urgency_rows (cols # rows) urgencies =
     (if length cols < 5 then urgency_rows rows urgencies
      else urgency_rows rows (urgencies @ [u_data cols]))"

definition scrape_urgencies :: "soup \<Rightarrow> urgency list" where
  "scrape_urgencies sp =
     (case find_target_table (soup_tables sp) of
        None \<Rightarrow> []
      | Some target_table \<Rightarrow> urgency_rows (drop 1 (table_rows target_table)) [])"

definition cache_key :: "string \<Rightarrow> string \<Rightarrow> string" where
  "cache_key project bol = project @ ''_'' @ bol"

definition fetch_urgencias :: "env \<Rightarrow> string \<Rightarrow> string \<Rightarrow> state \<Rightarrow> urgency list \<times> state" where
  "fetch_urgencias w project bol s =
     (if project = [] then ([], s)
      else case project_urgencies s (cache_key project bol) of
        Some urgencies \<Rightarrow> (urgencies, s)
      | None \<Rightarrow>
          (case fetch_content_default w (urgencias_url project bol) s of
             (None, s1) \<Rightarrow> ([], s1)
           | (Some content, s1) \<Rightarrow>
               if content = [] then ([], s1)
               else (case parse_html w content s1 of
                       (None, s2) \<Rightarrow> ([], s2)
                     | (Some sp, s2) \<Rightarrow>
                         (let urgencies = scrape_urgencies sp
                          in (urgencies,
                              s2\<lparr>project_urgencies :=
                                   (project_urgencies s2)(cache_key project bol \<mapsto> urgencies)\<rparr>)))))"

section \<open>Pipeline driver (fetch\_urgencias.py, main)\<close>

definition make_row :: "string \<Rightarrow> string \<Rightarrow> string \<Rightarrow> urgency \<Rightarrow> output_row" where
  "make_row vote bol project urg =
     \<lparr>urgencia_fecha_inicio = urgencia_fecha_inicio urg,
      urgencia_fecha_termino = urgencia_fecha_termino urg,
      urgencia_tipo = urgencia_tipo urg,
      urgencia_oficio = urgencia_oficio urg,
      urgencia_mensaje_ing = urgencia_mensaje_ing urg,
      urgencia_mensaje_ret = urgencia_mensaje_ret urg,
      vote_id = vote, boletin = bol, proyecto_id = project\<rparr>"

definition empty_row :: "string \<Rightarrow> string \<Rightarrow> string \<Rightarrow> output_row" where
  "empty_row vote bol project =
     \<lparr>urgencia_fecha_inicio = [], urgencia_fecha_termino = [], urgencia_tipo = [],
      urgencia_oficio = [], urgencia_mensaje_ing = [], urgencia_mensaje_ret = [],
      vote_id = vote, boletin = bol, proyecto_id = project\<rparr>"

text \<open>The loop \<open>for urg in urgency_list: results.append(row)\<close>.\<close>

fun append_rows ::
  "string \<Rightarrow> string \<Rightarrow> string \<Rightarrow> urgency list \<Rightarrow> output_row list \<Rightarrow> output_row list" where
  "append_rows vote bol project [] results = results"
| "append_rows vote bol project (urg # urgs) results =
     append_rows vote bol project urgs (results @ [make_row vote bol project urg])"

text \<open>One iteration of the loop over \<open>vote_ids\<close> (lines 161 to 205).\<close>

definition process_vote ::
  "env \<Rightarrow> string \<Rightarrow> output_row list \<times> state \<Rightarrow> output_row list \<times> state" where
  "process_vote w vote rs =
     (case rs of (results, s) \<Rightarrow>
        (case fetch_boletin_for_vote w vote s of (bol, s1) \<Rightarrow>
           if bol = [] then (results, s1)
           else (case fetch_proyecto_id_from_tramitacion w bol s1 of (project, s2) \<Rightarrow>
                   if project = []
                   then (results, logging_warning (No_project_id bol) s2)
                   else (case fetch_urgencias w project bol s2 of (urgency_list, s3) \<Rightarrow>
                           if urgency_list \<noteq> []
                           then (append_rows vote bol project urgency_list results, s3)
                           else (results @ [empty_row vote bol project], s3)))))"

fun main_loop :: "env \<Rightarrow> string list \<Rightarrow> output_row list \<times> state \<Rightarrow> output_row list \<times> state" where
  "main_loop w [] rs = rs"
| "main_loop w (vote # votes) rs = main_loop w votes (process_vote w vote rs)"

section \<open>Auxiliary notions for the statements\<close>

definition is_word :: "string \<Rightarrow> bool" where
  "is_word w = (w \<noteq> [] \<and> (\<forall>c \<in> set w. \<not> py_isspace c))"

text \<open>The lengths that \<open>time.sleep\<close> accepts.\<close>

definition sleep_length_ok :: "rat \<Rightarrow> bool" where
  "sleep_length_ok secs = (0 \<le> secs \<and> secs * 10 ^ 9 < 2 ^ 63 - 512)"

text \<open>The events a call has added to the log.\<close>

definition new_events :: "state \<Rightarrow> state \<Rightarrow> event list" where
  "new_events s s' = drop (length (events s)) (events s')"

text \<open>
  The events that a lookup fetching \<open>url\<close> may add: sleeps, requests for \<open>url\<close>, the
  Fetcher's warnings and error about \<open>url\<close>, and the parsers' errors.
\<close>

fun stage_event :: "string \<Rightarrow> event \<Rightarrow> bool" where
  "stage_event url (Sleep d) = True"
| "stage_event url (Get u) = (u = url)"
| "stage_event url (Log_warning m) =
     (case m of Attempt_failed k u \<Rightarrow> u = url | _ \<Rightarrow> False)"
| "stage_event url (Log_error m) =
     (case m of Failed_to_fetch u r \<Rightarrow> u = url | XML_parsing_error \<Rightarrow> True
      | HTML_parsing_error \<Rightarrow> True | _ \<Rightarrow> False)"

definition emits :: "(event \<Rightarrow> bool) \<Rightarrow> state \<Rightarrow> state \<Rightarrow> bool" where
  "emits P s s' = (events s' = events s @ new_events s s' \<and> list_all P (new_events s s'))"

definition same_caches :: "state \<Rightarrow> state \<Rightarrow> bool" where
  "same_caches s s' =
     (vote_to_boletin s' = vote_to_boletin s \<and>
      boletin_to_project_id s' = boletin_to_project_id s \<and>
      project_urgencies s' = project_urgencies s)"

fun is_get :: "event \<Rightarrow> bool" where
  "is_get (Get u) = True"
| "is_get e = False"

fun is_warning :: "event \<Rightarrow> bool" where
  "is_warning (Log_warning m) = True"
| "is_warning e = False"

text \<open>The lengths of the sleeps in a log, in order.\<close>

fun sleeps :: "event list \<Rightarrow> rat list" where
  "sleeps [] = []"
| "sleeps (Sleep d # es) = d # sleeps es"
| "sleeps (e # es) = sleeps es"

text \<open>
  For each HTTP request in a log, the time slept since the request before it (or since
  the start of the log); \<open>acc\<close> is the time slept so far.
\<close>

fun waits_before_attempts :: "rat \<Rightarrow> event list \<Rightarrow> rat list" where
  "waits_before_attempts acc [] = []"
| "waits_before_attempts acc (Sleep d # es) = waits_before_attempts (acc + d) es"
| "waits_before_attempts acc (Get u # es) = acc # waits_before_attempts 0 es"
| "waits_before_attempts acc (e # es) = waits_before_attempts acc es"

text \<open>
  The schedule of one call of the Fetcher with delay \<open>d\<close> and at most \<open>n\<close> attempts, read
  off the events \<open>evs\<close> it added and its result \<open>c\<close>. Every request but a final
  successful one has its warning; no more than \<open>n\<close> attempts fail, and all \<open>n\<close> do
  when there is no content; the sleeps are \<open>d\<close> before each request and \<open>2d\<close> after each
  failure; hence the wait before the first request is \<open>d\<close> (after \<open>acc\<close> already slept)
  and before each later one \<open>2d + d\<close>.
\<close>

definition retry_schedule :: "rat \<Rightarrow> nat \<Rightarrow> string option \<Rightarrow> event list \<Rightarrow> bool" where
  "retry_schedule d n c evs =
     (length (filter is_get evs)
        = length (filter is_warning evs) + (if c = None then 0 else 1) \<and>
      length (filter is_warning evs) \<le> n \<and>
      (c = None \<longrightarrow> length (filter is_warning evs) = n) \<and>
      sleeps evs
        = concat (replicate (length (filter is_warning evs)) [d, d * 2])
          @ (if c = None then [] else [d]) \<and>
      (\<forall>acc. waits_before_attempts acc evs =
         (case length (filter is_get evs) of
            0 \<Rightarrow> []
          | Suc m \<Rightarrow> (acc + d) # replicate m (d * 2 + d))))"

text \<open>A doubling backoff: every wait is twice the wait before it.\<close>

fun doubling :: "rat list \<Rightarrow> bool" where
  "doubling (x # y # xs) = (y = 2 * x \<and> doubling (y # xs))"
| "doubling xs = True"

text \<open>
  The log of \<open>n\<close> failed attempts numbered from \<open>a + 1\<close>: sleep, request, warning and
  the sleep after the failure.
\<close>

fun failure_trace :: "string \<Rightarrow> rat \<Rightarrow> nat \<Rightarrow> nat \<Rightarrow> event list" where
  "failure_trace url d a 0 = []"
| "failure_trace url d a (Suc n) =
     [Sleep d, Get url, Log_warning (Attempt_failed (a + 1) url), Sleep (d * 2)]
     @ failure_trace url d (a + 1) n"

text \<open>Any event but a request for the tramitacion page of bulletin \<open>b\<close>.\<close>

definition not_tramitacion :: "string \<Rightarrow> event \<Rightarrow> bool" where
  "not_tramitacion b e = (e \<noteq> Get (tramitacion_url b))"

text \<open>
  The invariant of the two identifier caches: no entry holds the empty string. It holds
  for the empty caches a run starts with and every lookup keeps it.
\<close>

definition no_empty_cached :: "state \<Rightarrow> bool" where
  "no_empty_cached s = ([] \<notin> ran (vote_to_boletin s) \<and> [] \<notin> ran (boletin_to_project_id s))"

text \<open>
  Stage failure of the urgency stage: the urgency page gives no content (the fetch is
  exhausted or the body is empty) or cannot be parsed.
\<close>

definition urgencias_stage_fails :: "env \<Rightarrow> string \<Rightarrow> string \<Rightarrow> state \<Rightarrow> bool" where
  "urgencias_stage_fails w project bol s =
     (case fetch_content_default w (urgencias_url project bol) s of
        (None, s1) \<Rightarrow> True
      | (Some content, s1) \<Rightarrow> content = [] \<or> fst (parse_html w content s1) = None)"

section \<open>Example inputs\<close>

text \<open>An upstream that fails every request.\<close>

definition w_fail :: env where
  "w_fail = \<lparr>http_get = (\<lambda>k url. RequestException), et_fromstring = (\<lambda>c. Xml_none),
     beautifulsoup = (\<lambda>c. None), parse_qs_prmID = (\<lambda>h. [])\<rparr>"

text \<open>An upstream whose first request of a run fails and whose later requests succeed.\<close>

definition w_flaky :: env where
  "w_flaky = \<lparr>http_get = (\<lambda>k url. if k = 0 then RequestException else Ok ''V''),
     et_fromstring = (\<lambda>c. Xml_none), beautifulsoup = (\<lambda>c. None),
     parse_qs_prmID = (\<lambda>h. [])\<rparr>"

text \<open>A navigation table without marker, and an urgency table with a header row, a row of
  five cells, a decorative row and a row of six cells.\<close>

definition menu_table :: table where
  "menu_table = \<lparr>table_text = ''Inicio Contacto'', table_rows = [[''Inicio'', ''Contacto'']]\<rparr>"

definition urgency_table :: table where
  "urgency_table =
     \<lparr>table_text = ''Fecha Inicio Tipo 01-03 02-03 Suma 12 34 nota 05-04 06-04 Simple 56 78 90'',
      table_rows = [[''Fecha Inicio'', ''Tipo''],
                    [''01-03'', '' 02-03 '', ''Suma'', ''12'', ''34''],
                    [''nota''],
                    [''05-04'', ''06-04'', ''Simple'', ''56'', ''78'', ''90'']]\<rparr>"

text \<open>
  An upstream with fixed content. The votes 12345 and 12346 belong to bulletin 9876-06,
  whose tramitacion page links to project 555, whose urgency page has the two tables
  above. Vote 12347 belongs to bulletin 1111-07 and project 77, whose urgency page has no
  urgency table. The record of vote 999 has no \<open>Boletin\<close> element. \<open>w_nolink\<close> is the
  same upstream with tramitacion pages that hold no link.
\<close>

definition demo_href :: string where
  "demo_href = ''urgencias.aspx?prmID=555&prmBOLETIN=9876-06''"

definition demo_href2 :: string where
  "demo_href2 = ''urgencias.aspx?prmID=77&prmBOLETIN=1111-07''"

definition w_demo :: env where
  "w_demo =
     \<lparr>http_get = (\<lambda>k url.
        if url = vote_url ''12345'' \<or> url = vote_url ''12346'' then Ok ''V''
        else if url = vote_url ''12347'' then Ok ''V2''
        else if url = vote_url ''999'' then Ok ''E''
        else if url = tramitacion_url ''9876-06'' then Ok ''T''
        else if url = tramitacion_url ''1111-07'' then Ok ''T2''
        else if url = urgencias_url ''555'' ''9876-06'' then Ok ''U''
        else if url = urgencias_url ''77'' ''1111-07'' then Ok ''U2''
        else RequestException),
      et_fromstring = (\<lambda>c.
        if c = ''V''
        then Xml_root \<lparr>find_any_ns_Boletin = Some (Some '' 9876-06 ''), find_Boletin = None\<rparr>
        else if c = ''V2''
        then Xml_root \<lparr>find_any_ns_Boletin = None, find_Boletin = Some (Some ''1111-07'')\<rparr>
        else if c = ''E'' then Xml_root \<lparr>find_any_ns_Boletin = None, find_Boletin = None\<rparr>
        else Xml_none),
      beautifulsoup = (\<lambda>c.
        if c = ''T'' then Some \<lparr>anchors = [None, Some demo_href], soup_tables = []\<rparr>
        else if c = ''T2'' then Some \<lparr>anchors = [Some demo_href2], soup_tables = []\<rparr>
        else if c = ''U'' then Some \<lparr>anchors = [], soup_tables = [menu_table, urgency_table]\<rparr>
        else if c = ''U2'' then Some \<lparr>anchors = [], soup_tables = [menu_table]\<rparr>
        else None),
      parse_qs_prmID = (\<lambda>h. if h = demo_href then ''555''
                             else if h = demo_href2 then ''77'' else [])\<rparr>"

definition w_nolink :: env where
  "w_nolink = w_demo\<lparr>beautifulsoup := (\<lambda>c. Some \<lparr>anchors = [], soup_tables = []\<rparr>)\<rparr>"

section \<open>Properties of the text normalizer\<close>


lemma py_isspace_space: "py_isspace CHR '' ''"
  by (simp add: py_isspace_def)

lemma split_acc_words:
  "(\<forall>c \<in> set cur. \<not> py_isspace c) \<Longrightarrow> \<forall>w \<in> set (split_acc cur cs). is_word w"
proof (induction cs arbitrary: cur)
  case Nil
  then show ?case by (simp add: is_word_def)
next
  case (Cons c cs)
  show ?case
  proof (cases "py_isspace c")
    case True
    have "\<forall>w \<in> set (split_acc [] cs). is_word w"
      using Cons.IH [of "[]"] by simp
    then show ?thesis
      using True Cons.prems by (simp add: is_word_def)
  next
    case False
    have "\<forall>w \<in> set (split_acc (cur @ [c]) cs). is_word w"
      using Cons.IH [of "cur @ [c]"] Cons.prems False by simp
    then show ?thesis using False by simp
  qed
qed

lemma py_split_words: "\<forall>w \<in> set (py_split t). is_word w"
  using split_acc_words [of "[]" t] by (simp add: py_split_def)

lemma split_acc_nospace:
  "\<forall>c \<in> set w. \<not> py_isspace c \<Longrightarrow> split_acc cur (w @ rest) = split_acc (cur @ w) rest"
  by (induction w arbitrary: cur) auto

lemma split_acc_join:
  "\<forall>w \<in> set ws. is_word w \<Longrightarrow> ws \<noteq> [] \<Longrightarrow>
   split_acc cur (join '' '' ws) = (cur @ hd ws) # tl ws"
proof (induction ws arbitrary: cur)
  case Nil
  then show ?case by simp
next
  case (Cons w ws)
  then have w: "\<forall>c \<in> set w. \<not> py_isspace c" "w \<noteq> []"
    by (simp_all add: is_word_def)
  show ?case
  proof (cases ws)
    case Nil
    then show ?thesis
      using w split_acc_nospace [of w cur "[]"] by simp
  next
    case (Cons v vs)
    have ih: "split_acc [] (join '' '' ws) = ws"
      using Cons.IH [of "[]"] Cons.prems Cons by simp
    have "split_acc cur (join '' '' (w # ws))
          = split_acc (cur @ w) ('' '' @ join '' '' ws)"
      using split_acc_nospace [OF w(1)] Cons by simp
    also have "\<dots> = (cur @ w) # split_acc [] (join '' '' ws)"
      using w(2) by (simp add: py_isspace_space)
    finally show ?thesis by (simp add: ih)
  qed
qed

lemma py_split_join:
  "\<forall>w \<in> set ws. is_word w \<Longrightarrow> py_split (join '' '' ws) = ws"
proof (cases ws)
  case Nil
  then show ?thesis by (simp add: py_split_def)
next
  case (Cons w ws')
  assume "\<forall>w \<in> set ws. is_word w"
  then show ?thesis
    using split_acc_join [of ws "[]"] Cons by (simp add: py_split_def)
qed

lemma join_words_nonempty:
  "\<forall>w \<in> set ws. is_word w \<Longrightarrow> ws \<noteq> [] \<Longrightarrow> join sep ws \<noteq> []"
  by (induction sep ws rule: join.induct) (auto simp: is_word_def)

text \<open>
  Claim C9. The text normalizer is idempotent: for every string \<open>x\<close>, normalizing the
  normalized text gives the normalized text again. Here \<open>clean_text\<close>
  splits the text at runs of whitespace and joins the words with single spaces.
\<close>

theorem clean_text_idempotent:
  "clean_text (Some (clean_text (Some x))) = clean_text (Some x)"
proof (cases "x = [] \<or> py_split x = []")
  case True
  then show ?thesis by (auto simp: clean_text_def)
next
  case False
  then have ne: "x \<noteq> []" "py_split x \<noteq> []" by simp_all
  have words: "\<forall>w \<in> set (py_split x). is_word w" by (rule py_split_words)
  have "join '' '' (py_split x) \<noteq> []"
    using join_words_nonempty [OF words ne(2)] .
  moreover have "py_split (join '' '' (py_split x)) = py_split x"
    using py_split_join [OF words] .
  ultimately show ?thesis using ne by (simp add: clean_text_def)
qed

section \<open>Properties of the urgency-table locator\<close>

lemma urgency_rows_filter:
  "urgency_rows rows acc = acc @ map u_data (filter (\<lambda>cols. \<not> length cols < 5) rows)"
  by (induction rows arbitrary: acc) simp_all

lemma find_target_table_none:
  "\<forall>t \<in> set ts. \<not> has_marker t \<Longrightarrow> find_target_table ts = None"
  by (induction ts) simp_all

lemma find_target_table_first:
  "\<forall>t' \<in> set pre. \<not> has_marker t' \<Longrightarrow> has_marker t \<Longrightarrow>
   find_target_table (pre @ t # post) = Some t"
  by (induction pre) simp_all

text \<open>
  Claim C8. The urgency-table locator takes the tables in document order and selects the
  first whose text contains \<open>Fecha Inicio\<close> or \<open>Tipo de urgencia\<close>; it drops that
  table's first row, and gives one record for each later row that has at least 5 cells,
  in order, the rows with fewer cells being left out. When no table has a marker the
  result is the empty list.
\<close>

theorem urgency_table_locator:
  "((\<forall>t \<in> set (soup_tables sp). \<not> has_marker t) \<longrightarrow> scrape_urgencies sp = []) \<and>
   (soup_tables sp = pre @ t # post \<and> (\<forall>t' \<in> set pre. \<not> has_marker t') \<and> has_marker t \<longrightarrow>
      scrape_urgencies sp =
        map u_data (filter (\<lambda>cols. \<not> length cols < 5) (drop 1 (table_rows t))))"
  by (simp add: scrape_urgencies_def find_target_table_none find_target_table_first
      urgency_rows_filter)

theorem urgency_table_locator_witness:
  "\<not> has_marker menu_table \<and>
   scrape_urgencies \<lparr>anchors = [], soup_tables = [menu_table]\<rparr> = [] \<and>
   soup_tables \<lparr>anchors = [], soup_tables = [menu_table, urgency_table]\<rparr>
     = [menu_table] @ urgency_table # [] \<and>
   has_marker urgency_table \<and>
   scrape_urgencies \<lparr>anchors = [], soup_tables = [menu_table, urgency_table]\<rparr> =
     map u_data (filter (\<lambda>cols. \<not> length cols < 5) (drop 1 (table_rows urgency_table)))"
proof -
  have m: "\<not> has_marker menu_table"
    by (simp add: has_marker_def menu_table_def)
  have u: "has_marker urgency_table"
    by (simp add: has_marker_def urgency_table_def)
  show ?thesis
    using m u
      urgency_table_locator [of "\<lparr>anchors = [], soup_tables = [menu_table]\<rparr>"]
      urgency_table_locator [of "\<lparr>anchors = [], soup_tables = [menu_table, urgency_table]\<rparr>"
        "[menu_table]" urgency_table "[]"]
    by simp
qed

text \<open>
  Claim C10. A data row with exactly 5 cells is not skipped: the loop appends a record
  whose first five fields are the normalized cells 0 to 4 and whose field
  \<open>urgencia_mensaje_ret\<close> is the empty string. A row adds a record unless it has fewer
  than 5 cells.
\<close>

theorem five_cell_row_kept:
  "urgency_rows ([c0, c1, c2, c3, c4] # rows) acc =
     urgency_rows rows (acc @ [\<lparr>urgencia_fecha_inicio = clean_text (Some c0),
       urgencia_fecha_termino = clean_text (Some c1), urgencia_tipo = clean_text (Some c2),
       urgencia_oficio = clean_text (Some c3), urgencia_mensaje_ing = clean_text (Some c4),
       urgencia_mensaje_ret = []\<rparr>]) \<and>
   length (urgency_rows (cols # rows) acc) =
     length (urgency_rows rows acc) + (if length cols < 5 then 0 else 1)"
  by (simp add: u_data_def urgency_rows_filter)


section \<open>Properties of the Fetcher\<close>

lemma time_sleep_ok: "sleep_length_ok secs \<Longrightarrow> time_sleep secs s = Inr (log_event (Sleep secs) s)"
  by (simp add: time_sleep_def sleep_length_ok_def)

lemma time_sleep_raises: "\<not> sleep_length_ok secs \<Longrightarrow> \<exists>e. \<forall>s. time_sleep secs s = Inl e"
  by (auto simp: time_sleep_def sleep_length_ok_def)

lemma sleep_length_ok_half: "sleep_length_ok (d * 2) \<Longrightarrow> sleep_length_ok d"
  by (simp add: sleep_length_ok_def)

lemma sleep_length_ok_default: "sleep_length_ok (1 / 2 * 2)"
  by (simp add: sleep_length_ok_def)

lemma fetch_attempts_all_fail:
  "sleep_length_ok (d * 2) \<Longrightarrow> \<forall>k < n. http_get w (clock s + k) url = RequestException \<Longrightarrow>
   fetch_attempts w url d a n s =
     (Inr None, s\<lparr>clock := clock s + n, events := events s @ failure_trace url d a n\<rparr>)"
proof (induction n arbitrary: a s)
  case 0
  then show ?case by simp
next
  case (Suc n)
  let ?s4 = "s\<lparr>clock := Suc (clock s),
                events := events s @ [Sleep d, Get url, Log_warning (Attempt_failed (a + 1) url),
                                      Sleep (d * 2)]\<rparr>"
  have fail0: "http_get w (clock s) url = RequestException"
    using Suc.prems(2) by (metis add.right_neutral zero_less_Suc)
  have rest: "\<forall>k < n. http_get w (clock ?s4 + k) url = RequestException"
  proof (intro allI impI)
    fix k assume "k < n"
    then have "http_get w (clock s + Suc k) url = RequestException"
      using Suc.prems(2) by (metis Suc_less_eq)
    then show "http_get w (clock ?s4 + k) url = RequestException" by simp
  qed
  have step: "fetch_attempts w url d a (Suc n) s = fetch_attempts w url d (a + 1) n ?s4"
    using Suc.prems(1) sleep_length_ok_half [OF Suc.prems(1)] fail0
    by (simp add: time_sleep_ok requests_get_def logging_warning_def log_event_def)
  show ?case
    unfolding step using Suc.IH [OF Suc.prems(1) rest, of "a + 1"] by simp
qed

lemma is_get_failure_trace: "filter is_get (failure_trace url d a n) = replicate n (Get url)"
  by (induction n arbitrary: a) simp_all

lemma sleeps_append: "sleeps (xs @ ys) = sleeps xs @ sleeps ys"
  by (induction xs rule: sleeps.induct) simp_all

lemma sleeps_failure_trace:
  "sleeps (failure_trace url d a n) = concat (replicate n [d, d * 2])"
  by (induction n arbitrary: a) simp_all

lemma waits_failure_trace:
  "waits_before_attempts acc (failure_trace url d a n @ rest) =
     (case n of 0 \<Rightarrow> waits_before_attempts acc rest
      | Suc m \<Rightarrow> (acc + d) # replicate m (d * 2 + d) @ waits_before_attempts (d * 2) rest)"
proof (induction n arbitrary: a acc)
  case 0
  then show ?case by simp
next
  case (Suc n)
  show ?case
    using Suc.IH [of "d * 2" "a + 1"]
    by (cases n) (simp_all add: replicate_app_Cons_same)
qed

lemma new_events_append: "events s' = events s @ evs \<Longrightarrow> new_events s s' = evs"
  by (simp add: new_events_def)

lemma waits_append_no_get:
  "filter is_get ys = [] \<Longrightarrow>
   waits_before_attempts acc (xs @ ys) = waits_before_attempts acc xs"
proof (induction acc xs rule: waits_before_attempts.induct)
  case (1 acc)
  then show ?case
    by (induction acc ys rule: waits_before_attempts.induct) simp_all
qed simp_all

lemma replicate_case:
  "(case k of 0 \<Rightarrow> [] | Suc m \<Rightarrow> x # replicate m x) = replicate k x"
  by (cases k) simp_all

lemma retry_schedule_append_error:
  "retry_schedule d n c evs \<Longrightarrow> retry_schedule d n c (evs @ [Log_error m])"
  by (simp add: retry_schedule_def sleeps_append waits_append_no_get)

lemma fetch_attempts_schedule:
  assumes "sleep_length_ok (d * 2)"
  shows "\<exists>c s' evs. fetch_attempts w url d a n s = (Inr c, s') \<and>
           events s' = events s @ evs \<and> retry_schedule d n c evs"
proof (induction n arbitrary: a s)
  case 0
  show ?case by (simp add: retry_schedule_def)
next
  case (Suc n)
  note ok = assms sleep_length_ok_half [OF assms]
  show ?case
  proof (cases "http_get w (clock s) url")
    case (Ok content)
    let ?s2 = "s\<lparr>clock := Suc (clock s), events := events s @ [Sleep d, Get url]\<rparr>"
    have "fetch_attempts w url d a (Suc n) s = (Inr (Some content), ?s2)"
      using ok Ok by (simp add: time_sleep_ok requests_get_def log_event_def)
    moreover have "events ?s2 = events s @ [Sleep d, Get url]" by simp
    moreover have "retry_schedule d (Suc n) (Some content) [Sleep d, Get url]"
      by (simp add: retry_schedule_def)
    ultimately show ?thesis by blast
  next
    case RequestException
    let ?four = "[Sleep d, Get url, Log_warning (Attempt_failed (a + 1) url), Sleep (d * 2)]"
    let ?s4 = "s\<lparr>clock := Suc (clock s), events := events s @ ?four\<rparr>"
    have step: "fetch_attempts w url d a (Suc n) s = fetch_attempts w url d (a + 1) n ?s4"
      using ok RequestException
      by (simp add: time_sleep_ok requests_get_def logging_warning_def log_event_def)
    obtain c s' evs where ih: "fetch_attempts w url d (a + 1) n ?s4 = (Inr c, s')"
        "events s' = events ?s4 @ evs" "retry_schedule d n c evs"
      using Suc.IH [of "a + 1" ?s4] by blast
    have ev: "events s' = events s @ (?four @ evs)"
      using ih(2) by simp
    have counts: "length (filter is_get evs)
          = length (filter is_warning evs) + (if c = None then 0 else 1)"
        "length (filter is_warning evs) \<le> n"
        "c = None \<longrightarrow> length (filter is_warning evs) = n"
      and sl: "sleeps evs = concat (replicate (length (filter is_warning evs)) [d, d * 2])
          @ (if c = None then [] else [d])"
      and wa: "waits_before_attempts (d * 2) evs =
          (case length (filter is_get evs) of
             0 \<Rightarrow> []
           | Suc m \<Rightarrow> (d * 2 + d) # replicate m (d * 2 + d))"
      using ih(3) unfolding retry_schedule_def by blast+
    have wa': "waits_before_attempts (d * 2) evs
          = replicate (length (filter is_get evs)) (d * 2 + d)"
      unfolding wa by (rule replicate_case)
    have "retry_schedule d (Suc n) c (?four @ evs)"
      unfolding retry_schedule_def
    proof (intro conjI allI)
      show "length (filter is_get (?four @ evs))
          = length (filter is_warning (?four @ evs)) + (if c = None then 0 else 1)"
        using counts(1) by simp
      show "length (filter is_warning (?four @ evs)) \<le> Suc n"
        using counts(2) by simp
      show "c = None \<longrightarrow> length (filter is_warning (?four @ evs)) = Suc n"
        using counts(3) by simp
      show "sleeps (?four @ evs)
          = concat (replicate (length (filter is_warning (?four @ evs))) [d, d * 2])
            @ (if c = None then [] else [d])"
        using sl by simp
      show "waits_before_attempts acc (?four @ evs) =
          (case length (filter is_get (?four @ evs)) of
             0 \<Rightarrow> []
           | Suc m \<Rightarrow> (acc + d) # replicate m (d * 2 + d))" for acc
        using wa' by simp
    qed
    moreover have "fetch_attempts w url d a (Suc n) s = (Inr c, s')"
      using step ih(1) by simp
    ultimately show ?thesis
      using ev by blast
  qed
qed

lemma fetch_content_schedule:
  assumes "sleep_length_ok (d * 2)"
  shows "\<exists>c s'. fetch_content w url retries d s = (Inr c, s') \<and>
           events s' = events s @ new_events s s' \<and>
           retry_schedule d (nat retries) c (new_events s s')"
proof -
  obtain c s1 evs where fa: "fetch_attempts w url d 0 (nat retries) s = (Inr c, s1)"
      "events s1 = events s @ evs" "retry_schedule d (nat retries) c evs"
    using fetch_attempts_schedule [OF assms] by blast
  show ?thesis
  proof (cases c)
    case None
    let ?s' = "logging_error (Failed_to_fetch url retries) s1"
    have "fetch_content w url retries d s = (Inr c, ?s')"
      using fa(1) None by (simp add: fetch_content_def)
    moreover have ev: "events ?s' = events s @ (evs @ [Log_error (Failed_to_fetch url retries)])"
      using fa(2) by (simp add: logging_error_def log_event_def)
    moreover have "new_events s ?s' = evs @ [Log_error (Failed_to_fetch url retries)]"
      using ev by (rule new_events_append)
    ultimately show ?thesis
      using retry_schedule_append_error [OF fa(3)] by simp
  next
    case (Some content)
    have "fetch_content w url retries d s = (Inr c, s1)"
      using fa(1) Some by (simp add: fetch_content_def)
    moreover have "new_events s s1 = evs"
      using fa(2) by (rule new_events_append)
    ultimately show ?thesis
      using fa(2,3) by simp
  qed
qed

lemma fetch_content_raises:
  assumes "\<not> sleep_length_ok (d * 2)" and "0 < retries"
    and "http_get w (clock s) url = RequestException"
  shows "\<exists>e s'. fetch_content w url retries d s = (Inl e, s')"
proof -
  obtain m where m: "nat retries = Suc m"
    using assms(2) by (cases "nat retries") simp_all
  obtain e2 where e2: "\<forall>s. time_sleep (d * 2) s = Inl e2"
    using time_sleep_raises [OF assms(1)] by blast
  show ?thesis
  proof (cases "sleep_length_ok d")
    case True
    then show ?thesis
      using m e2 assms(3)
      by (simp add: fetch_content_def time_sleep_ok requests_get_def logging_warning_def
          log_event_def)
  next
    case False
    then obtain e1 where "\<forall>s. time_sleep d s = Inl e1"
      using time_sleep_raises by blast
    then show ?thesis
      using m by (simp add: fetch_content_def)
  qed
qed

text \<open>
  Claim C5. If every attempt for a URL fails, the Fetcher makes exactly \<open>retries\<close>
  requests, all for that URL, and returns \<open>None\<close>, without raising. The loop
  \<open>for attempt in range(retries)\<close> runs \<open>nat retries\<close> times, that is \<open>retries\<close> times
  for a count. The delay is one that \<open>time.sleep\<close> accepts, doubled as well: with any
  other delay the first failed attempt ends in an exception of \<open>time.sleep\<close> (lemma
  \<open>fetch_content_raises\<close>).
\<close>

theorem fetch_content_retry_bound:
  assumes "sleep_length_ok (sleep_time * 2)"
    and "\<forall>k < nat retries. http_get w (clock s + k) url = RequestException"
  shows "\<exists>s'. fetch_content w url retries sleep_time s = (Inr None, s') \<and>
           events s' = events s @ new_events s s' \<and>
           filter is_get (new_events s s') = replicate (nat retries) (Get url) \<and>
           length (filter is_get (new_events s s')) = nat retries"
  using assms
  by (simp add: fetch_content_def fetch_attempts_all_fail logging_error_def log_event_def
      new_events_def is_get_failure_trace)

theorem fetch_content_retry_bound_witness:
  "sleep_length_ok (1 / 2 * 2) \<and>
   http_get w_fail (clock init_state + 0) ''u'' = RequestException \<and>
   http_get w_fail (clock init_state + 1) ''u'' = RequestException \<and>
   http_get w_fail (clock init_state + 2) ''u'' = RequestException \<and>
   (\<exists>s'. fetch_content w_fail ''u'' 3 (1 / 2) init_state = (Inr None, s') \<and>
          events s' = events init_state @ new_events init_state s' \<and>
          filter is_get (new_events init_state s') = replicate (nat 3) (Get ''u'') \<and>
          length (filter is_get (new_events init_state s')) = nat 3)"
proof -
  have h: "\<forall>k < nat 3. http_get w_fail (clock init_state + k) ''u'' = RequestException"
    by (simp add: w_fail_def)
  have g: "http_get w_fail (clock init_state + 0) ''u'' = RequestException"
      "http_get w_fail (clock init_state + 1) ''u'' = RequestException"
      "http_get w_fail (clock init_state + 2) ''u'' = RequestException"
    by (simp_all add: w_fail_def)
  note t = fetch_content_retry_bound [OF sleep_length_ok_default h]
  show ?thesis
    using sleep_length_ok_default g t by blast
qed

text \<open>
  Claim C6, as stated: under repeated failure the waiting schedule follows a doubling
  backoff. It fails for the default configuration: the sleeps are 0.5, 1, 0.5, 1, 0.5, 1,
  and the waits before the three attempts are 0.5, 1.5 and 1.5; neither sequence doubles.
\<close>

theorem backoff_not_doubling:
  "sleeps (new_events init_state (snd (fetch_content w_fail ''u'' 3 (1 / 2) init_state)))
     = [1 / 2, 1, 1 / 2, 1, 1 / 2, 1] \<and>
   \<not> doubling (sleeps
        (new_events init_state (snd (fetch_content w_fail ''u'' 3 (1 / 2) init_state)))) \<and>
   \<not> doubling (waits_before_attempts 0
        (new_events init_state (snd (fetch_content w_fail ''u'' 3 (1 / 2) init_state))))"
  by (simp add: fetch_content_def w_fail_def init_state_def time_sleep_def requests_get_def
      logging_warning_def logging_error_def log_event_def new_events_def numeral_3_eq_3)

text \<open>
  Claim C6, amended. With a delay \<open>d\<close> that \<open>time.sleep\<close> accepts, doubled as well, every
  call of the Fetcher returns, whether an attempt succeeds or all fail, and: it sleeps
  \<open>d\<close> before every attempt, the first included, and \<open>2d\<close> after every failed attempt
  (the one that logs a warning), and nothing else; the configured delay itself never
  changes. So the wait before the first attempt is \<open>d\<close> and the wait before each later
  attempt is \<open>2d + d\<close>, the same every time: the schedule does not grow.
\<close>

theorem fetch_content_waits:
  assumes "sleep_length_ok (sleep_time * 2)"
  shows "\<exists>c s'. fetch_content w url retries sleep_time s = (Inr c, s') \<and>
           events s' = events s @ new_events s s' \<and>
           length (filter is_get (new_events s s'))
             = length (filter is_warning (new_events s s')) + (if c = None then 0 else 1) \<and>
           sleeps (new_events s s')
             = concat (replicate (length (filter is_warning (new_events s s')))
                         [sleep_time, sleep_time * 2])
               @ (if c = None then [] else [sleep_time]) \<and>
           waits_before_attempts 0 (new_events s s') =
             (case length (filter is_get (new_events s s')) of
                0 \<Rightarrow> []
              | Suc m \<Rightarrow> sleep_time # replicate m (sleep_time * 2 + sleep_time))"
proof -
  obtain c s' where f: "fetch_content w url retries sleep_time s = (Inr c, s')"
      "events s' = events s @ new_events s s'"
      "retry_schedule sleep_time (nat retries) c (new_events s s')"
    using fetch_content_schedule [OF assms] by blast
  have "waits_before_attempts 0 (new_events s s') =
          (case length (filter is_get (new_events s s')) of
             0 \<Rightarrow> []
           | Suc m \<Rightarrow> (0 + sleep_time) # replicate m (sleep_time * 2 + sleep_time))"
    using f(3) unfolding retry_schedule_def by blast
  then have "waits_before_attempts 0 (new_events s s') =
          (case length (filter is_get (new_events s s')) of
             0 \<Rightarrow> []
           | Suc m \<Rightarrow> sleep_time # replicate m (sleep_time * 2 + sleep_time))"
    by (simp split: nat.splits)
  moreover have "length (filter is_get (new_events s s'))
             = length (filter is_warning (new_events s s')) + (if c = None then 0 else 1)"
      "sleeps (new_events s s')
             = concat (replicate (length (filter is_warning (new_events s s')))
                         [sleep_time, sleep_time * 2])
               @ (if c = None then [] else [sleep_time])"
    using f(3) unfolding retry_schedule_def by blast+
  ultimately show ?thesis
    using f(1,2) by blast
qed

theorem fetch_content_waits_witness:
  "sleep_length_ok (1 / 2 * 2) \<and>
   (\<exists>c s'. fetch_content w_fail ''u'' 3 (1 / 2) init_state = (Inr c, s') \<and>
           events s' = events init_state @ new_events init_state s' \<and>
           length (filter is_get (new_events init_state s'))
             = length (filter is_warning (new_events init_state s'))
               + (if c = None then 0 else 1) \<and>
           sleeps (new_events init_state s')
             = concat (replicate (length (filter is_warning (new_events init_state s')))
                         [1 / 2, 1 / 2 * 2])
               @ (if c = None then [] else [1 / 2]) \<and>
           waits_before_attempts 0 (new_events init_state s') =
             (case length (filter is_get (new_events init_state s')) of
                0 \<Rightarrow> []
              | Suc m \<Rightarrow> (1 / 2) # replicate m (1 / 2 * 2 + 1 / 2))) \<and>
   fst (fetch_content w_fail ''u'' 3 (1 / 2) init_state) = Inr None \<and>
   sleeps (new_events init_state (snd (fetch_content w_fail ''u'' 3 (1 / 2) init_state)))
     = [1 / 2, 1, 1 / 2, 1, 1 / 2, 1] \<and>
   fst (fetch_content w_flaky ''u'' 3 (1 / 2) init_state) = Inr (Some ''V'') \<and>
   sleeps (new_events init_state (snd (fetch_content w_flaky ''u'' 3 (1 / 2) init_state)))
     = [1 / 2, 1, 1 / 2] \<and>
   waits_before_attempts 0
     (new_events init_state (snd (fetch_content w_flaky ''u'' 3 (1 / 2) init_state)))
     = [1 / 2, 3 / 2]"
proof -
  note t = fetch_content_waits [OF sleep_length_ok_default, of w_fail "''u''" 3 init_state]
  have a: "fst (fetch_content w_fail ''u'' 3 (1 / 2) init_state) = Inr None"
      "sleeps (new_events init_state (snd (fetch_content w_fail ''u'' 3 (1 / 2) init_state)))
         = [1 / 2, 1, 1 / 2, 1, 1 / 2, 1]"
    by (simp_all add: fetch_content_def w_fail_def init_state_def time_sleep_def
        requests_get_def logging_warning_def logging_error_def log_event_def new_events_def
        numeral_3_eq_3)
  have b: "fst (fetch_content w_flaky ''u'' 3 (1 / 2) init_state) = Inr (Some ''V'')"
      "sleeps (new_events init_state (snd (fetch_content w_flaky ''u'' 3 (1 / 2) init_state)))
         = [1 / 2, 1, 1 / 2]"
      "waits_before_attempts 0
         (new_events init_state (snd (fetch_content w_flaky ''u'' 3 (1 / 2) init_state)))
         = [1 / 2, 3 / 2]"
    by (simp_all add: fetch_content_def w_flaky_def init_state_def time_sleep_def
        requests_get_def logging_warning_def logging_error_def log_event_def new_events_def
        numeral_3_eq_3)
  show ?thesis
    using sleep_length_ok_default t a b by blast
qed

section \<open>What a lookup adds to the log and to the caches\<close>

lemma emitsI: "events s' = events s @ evs \<Longrightarrow> list_all P evs \<Longrightarrow> emits P s s'"
  by (simp add: emits_def new_events_def)

lemma emits_refl: "emits P s s"
  by (simp add: emits_def new_events_def)

lemma emits_trans: "emits P s s1 \<Longrightarrow> emits P s1 s2 \<Longrightarrow> emits P s s2"
proof -
  assume a: "emits P s s1" and b: "emits P s1 s2"
  have "events s2 = events s @ (new_events s s1 @ new_events s1 s2)"
    using a b by (simp add: emits_def)
  moreover have "list_all P (new_events s s1 @ new_events s1 s2)"
    using a b by (simp add: emits_def)
  ultimately show ?thesis by (rule emitsI)
qed

lemma emits_log_event: "P e \<Longrightarrow> emits P s (log_event e s)"
  by (rule emitsI [where evs = "[e]"]) (simp_all add: log_event_def)

lemma emits_mono: "emits P s s' \<Longrightarrow> (\<And>e. P e \<Longrightarrow> Q e) \<Longrightarrow> emits Q s s'"
  by (auto simp: emits_def list_all_iff)

lemma same_caches_refl: "same_caches s s"
  by (simp add: same_caches_def)

lemma same_caches_trans: "same_caches s s1 \<Longrightarrow> same_caches s1 s2 \<Longrightarrow> same_caches s s2"
  by (simp add: same_caches_def)

lemma same_caches_log_event: "same_caches s (log_event e s)"
  by (simp add: same_caches_def log_event_def)

lemma fetch_attempts_frame:
  "fetch_attempts w url d a n s = (r, s') \<Longrightarrow> emits (stage_event url) s s' \<and> same_caches s s'"
proof (induction n arbitrary: a s)
  case 0
  then show ?case by (simp add: emits_refl same_caches_refl)
next
  case (Suc n)
  show ?case
  proof (cases "sleep_length_ok d")
    case False
    then obtain e where "\<forall>s. time_sleep d s = Inl e"
      using time_sleep_raises by blast
    then show ?thesis
      using Suc.prems by (simp add: emits_refl same_caches_refl)
  next
    case ok1: True
    let ?s1 = "log_event (Sleep d) s"
    let ?s2 = "(log_event (Get url) ?s1)\<lparr>clock := Suc (clock ?s1)\<rparr>"
    have e2: "emits (stage_event url) s ?s2"
      by (rule emitsI [where evs = "[Sleep d, Get url]"]) (simp_all add: log_event_def)
    have c2: "same_caches s ?s2"
      by (simp add: same_caches_def log_event_def)
    show ?thesis
    proof (cases "http_get w (clock s) url")
      case (Ok content)
      then have "s' = ?s2"
        using Suc.prems ok1 by (simp add: time_sleep_ok requests_get_def log_event_def)
      then show ?thesis using e2 c2 by simp
    next
      case RequestException
      let ?s3 = "log_event (Log_warning (Attempt_failed (a + 1) url)) ?s2"
      have e3: "emits (stage_event url) s ?s3"
        by (rule emitsI [where evs = "[Sleep d, Get url,
              Log_warning (Attempt_failed (a + 1) url)]"])
           (simp_all add: log_event_def)
      have c3: "same_caches s ?s3"
        by (simp add: same_caches_def log_event_def)
      show ?thesis
      proof (cases "sleep_length_ok (d * 2)")
        case False
        then obtain e where "\<forall>s. time_sleep (d * 2) s = Inl e"
          using time_sleep_raises by blast
        then have "s' = ?s3"
          using Suc.prems ok1 RequestException
          by (simp add: time_sleep_ok requests_get_def logging_warning_def log_event_def)
        then show ?thesis using e3 c3 by simp
      next
        case ok2: True
        let ?s4 = "log_event (Sleep (d * 2)) ?s3"
        have e4: "emits (stage_event url) s ?s4"
          by (rule emitsI [where evs = "[Sleep d, Get url,
                Log_warning (Attempt_failed (a + 1) url), Sleep (d * 2)]"])
             (simp_all add: log_event_def)
        have c4: "same_caches s ?s4"
          by (simp add: same_caches_def log_event_def)
        have "fetch_attempts w url d (a + 1) n ?s4 = (r, s')"
          using Suc.prems ok1 ok2 RequestException
          by (simp add: time_sleep_ok requests_get_def logging_warning_def log_event_def)
        then have "emits (stage_event url) ?s4 s' \<and> same_caches ?s4 s'"
          by (rule Suc.IH)
        then show ?thesis
          using e4 c4 emits_trans same_caches_trans by blast
      qed
    qed
  qed
qed

lemma fetch_attempts_no_raise:
  "sleep_length_ok (d * 2) \<Longrightarrow> \<exists>c s'. fetch_attempts w url d a n s = (Inr c, s')"
  using fetch_attempts_schedule by blast

lemma fetch_content_default_returns:
  "\<exists>c s'. fetch_content w url 3 (1 / 2) s = (Inr c, s')"
proof -
  obtain c s' where "fetch_attempts w url (1 / 2) 0 (nat 3) s = (Inr c, s')"
    using fetch_attempts_no_raise [OF sleep_length_ok_default] by blast
  then show ?thesis
    by (cases c) (simp_all add: fetch_content_def)
qed

lemma fetch_content_default_frame:
  assumes "fetch_content_default w url s = (c, s')"
  shows "emits (stage_event url) s s' \<and> same_caches s s'"
proof -
  obtain r s1 where fa: "fetch_attempts w url (1 / 2) 0 (nat 3) s = (r, s1)"
    by (cases "fetch_attempts w url (1 / 2) 0 (nat 3) s")
  then have f1: "emits (stage_event url) s s1 \<and> same_caches s s1"
    by (rule fetch_attempts_frame)
  have "s' = s1 \<or> s' = logging_error (Failed_to_fetch url 3) s1"
    using assms fa
    by (auto simp: fetch_content_default_def fetch_content_def split: sum.splits option.splits)
  then show ?thesis
  proof
    assume "s' = s1"
    then show ?thesis using f1 by simp
  next
    assume s': "s' = logging_error (Failed_to_fetch url 3) s1"
    have "emits (stage_event url) s1 s'" "same_caches s1 s'"
      unfolding s' logging_error_def
      by (simp_all add: emits_log_event same_caches_log_event)
    then show ?thesis
      using f1 emits_trans same_caches_trans by blast
  qed
qed

lemma fetch_attempts_first_request:
  assumes "sleep_length_ok (d * 2)" and "fetch_attempts w url d a (Suc n) s = (r, s')"
  shows "\<exists>rest. events s' = events s @ Sleep d # Get url # rest"
proof (cases "http_get w (clock s) url")
  case (Ok content)
  then have "events s' = events s @ [Sleep d, Get url]"
    using assms sleep_length_ok_half [OF assms(1)]
    by (auto simp: time_sleep_ok requests_get_def log_event_def)
  then show ?thesis by simp
next
  case RequestException
  let ?s4 = "s\<lparr>clock := Suc (clock s),
                events := events s @ [Sleep d, Get url, Log_warning (Attempt_failed (a + 1) url),
                                      Sleep (d * 2)]\<rparr>"
  have "fetch_attempts w url d (a + 1) n ?s4 = (r, s')"
    using assms sleep_length_ok_half [OF assms(1)] RequestException
    by (simp add: time_sleep_ok requests_get_def logging_warning_def log_event_def)
  then have "emits (stage_event url) ?s4 s'"
    using fetch_attempts_frame by blast
  then have "events s' = events ?s4 @ new_events ?s4 s'"
    by (simp add: emits_def)
  then show ?thesis by simp
qed

lemma fetch_content_default_requests:
  assumes "fetch_content_default w url s = (c, s')"
  shows "Get url \<in> set (new_events s s')"
proof -
  have n3: "nat 3 = Suc 2" by simp
  obtain r s1 where fa: "fetch_attempts w url (1 / 2) 0 (Suc 2) s = (r, s1)"
    by (cases "fetch_attempts w url (1 / 2) 0 (Suc 2) s")
  obtain rest where ev1: "events s1 = events s @ Sleep (1 / 2) # Get url # rest"
    using fetch_attempts_first_request [OF sleep_length_ok_default fa] by auto
  have "s' = s1 \<or> s' = logging_error (Failed_to_fetch url 3) s1"
    using assms fa unfolding fetch_content_default_def fetch_content_def n3
    by (auto split: sum.splits option.splits)
  then have "\<exists>rest'. events s' = events s @ Sleep (1 / 2) # Get url # rest'"
    using ev1 by (auto simp: logging_error_def log_event_def)
  then show ?thesis
    by (auto simp: new_events_def)
qed


lemma new_events_trans:
  assumes "emits P s s1" and "emits Q s1 s2"
  shows "new_events s s2 = new_events s s1 @ new_events s1 s2"
proof -
  have "events s2 = events s @ (new_events s s1 @ new_events s1 s2)"
    using assms by (simp add: emits_def)
  then show ?thesis by (rule new_events_append)
qed

lemma parse_xml_frame:
  "parse_xml w content s = (r, s') \<Longrightarrow> emits (stage_event url) s s' \<and> same_caches s s'"
  by (auto simp: parse_xml_def logging_error_def emits_refl same_caches_refl emits_log_event
      same_caches_log_event split: xml_outcome.splits)

lemma parse_html_frame:
  "parse_html w content s = (r, s') \<Longrightarrow> emits (stage_event url) s s' \<and> same_caches s s'"
  by (auto simp: parse_html_def logging_error_def emits_refl same_caches_refl emits_log_event
      same_caches_log_event split: option.splits)

lemma fetch_boletin_for_vote_cached:
  "vote_to_boletin s vote = Some b \<Longrightarrow> fetch_boletin_for_vote w vote s = (b, s)"
  by (simp add: fetch_boletin_for_vote_def)

lemma fetch_boletin_for_vote_frame:
  assumes "fetch_boletin_for_vote w vote s = (bol, s')"
  shows "emits (stage_event (vote_url vote)) s s' \<and>
         boletin_to_project_id s' = boletin_to_project_id s \<and>
         project_urgencies s' = project_urgencies s \<and>
         (vote_to_boletin s' = vote_to_boletin s \<or>
          bol \<noteq> [] \<and> vote_to_boletin s vote = None \<and>
          vote_to_boletin s' = (vote_to_boletin s)(vote \<mapsto> bol)) \<and>
         (bol = [] \<longrightarrow> vote_to_boletin s' = vote_to_boletin s) \<and>
         (vote_to_boletin s vote = None \<longrightarrow> Get (vote_url vote) \<in> set (new_events s s'))"
proof (cases "vote_to_boletin s vote")
  case (Some b)
  then have "s' = s" "bol = b"
    using assms by (simp_all add: fetch_boletin_for_vote_def)
  then show ?thesis
    using Some by (simp add: emits_refl)
next
  case None
  let ?P = "stage_event (vote_url vote)"
  obtain c s1 where fc: "fetch_content_default w (vote_url vote) s = (c, s1)"
    by (cases "fetch_content_default w (vote_url vote) s")
  have f1: "emits ?P s s1" "same_caches s s1"
    using fetch_content_default_frame [OF fc] by simp_all
  have g1: "Get (vote_url vote) \<in> set (new_events s s1)"
    using fetch_content_default_requests [OF fc] .
  have key: "\<exists>s2. emits ?P s1 s2 \<and> same_caches s1 s2 \<and>
      (s' = s2 \<or> bol \<noteq> [] \<and> s' = s2\<lparr>vote_to_boletin := (vote_to_boletin s2)(vote \<mapsto> bol)\<rparr>)
      \<and> (bol = [] \<longrightarrow> s' = s2)"
  proof (cases "c = None \<or> c = Some []")
    case True
    then have "s' = s1"
      using assms None fc by (auto simp: fetch_boletin_for_vote_def)
    then show ?thesis
      using emits_refl same_caches_refl by blast
  next
    case False
    then obtain content where c: "c = Some content" "content \<noteq> []" by auto
    obtain r s2 where px: "parse_xml w content s1 = (r, s2)"
      by (cases "parse_xml w content s1")
    have f2: "emits ?P s1 s2 \<and> same_caches s1 s2"
      using parse_xml_frame [OF px] .
    have "s' = s2 \<and> bol = [] \<or>
          bol \<noteq> [] \<and> s' = s2\<lparr>vote_to_boletin := (vote_to_boletin s2)(vote \<mapsto> bol)\<rparr>"
      using assms None fc c px
      by (auto simp: fetch_boletin_for_vote_def Let_def split: option.splits if_splits)
    then show ?thesis using f2 by blast
  qed
  then obtain s2 where s2: "emits ?P s1 s2" "same_caches s1 s2"
      "s' = s2 \<or> bol \<noteq> [] \<and> s' = s2\<lparr>vote_to_boletin := (vote_to_boletin s2)(vote \<mapsto> bol)\<rparr>"
      "bol = [] \<longrightarrow> s' = s2"
    by auto
  have ev: "events s' = events s2"
    using s2(3) by auto
  have e02: "emits ?P s s2"
    using f1(1) s2(1) by (rule emits_trans)
  have e: "emits ?P s s'"
    using e02 ev by (simp add: emits_def new_events_def)
  have "new_events s s' = new_events s s1 @ new_events s1 s2"
    using new_events_trans [OF f1(1) s2(1)] ev by (simp add: new_events_def)
  then have g: "Get (vote_url vote) \<in> set (new_events s s')"
    using g1 by simp
  have caches: "same_caches s s2"
    using f1(2) s2(2) by (rule same_caches_trans)
  show ?thesis
    using e g caches s2(3,4) None by (auto simp: same_caches_def)
qed


lemma fetch_proyecto_id_from_tramitacion_frame:
  assumes "fetch_proyecto_id_from_tramitacion w bol s = (project, s')"
  shows "emits (stage_event (tramitacion_url bol)) s s' \<and>
         vote_to_boletin s' = vote_to_boletin s \<and>
         project_urgencies s' = project_urgencies s \<and>
         (boletin_to_project_id s' = boletin_to_project_id s \<or>
          project \<noteq> [] \<and> boletin_to_project_id s bol = None \<and>
          boletin_to_project_id s' = (boletin_to_project_id s)(bol \<mapsto> project)) \<and>
         (project = [] \<longrightarrow> boletin_to_project_id s' = boletin_to_project_id s) \<and>
         (bol \<noteq> [] \<and> boletin_to_project_id s bol = None \<longrightarrow>
            Get (tramitacion_url bol) \<in> set (new_events s s')) \<and>
         (boletin_to_project_id s bol \<noteq> None \<longrightarrow> s' = s)"
proof (cases "bol = [] \<or> boletin_to_project_id s bol \<noteq> None")
  case True
  then have "s' = s"
    using assms by (auto simp: fetch_proyecto_id_from_tramitacion_def split: if_splits)
  then show ?thesis
    using True by (auto simp: emits_refl)
next
  case False
  then have None: "bol \<noteq> []" "boletin_to_project_id s bol = None" by auto
  let ?P = "stage_event (tramitacion_url bol)"
  obtain c s1 where fc: "fetch_content_default w (tramitacion_url bol) s = (c, s1)"
    by (cases "fetch_content_default w (tramitacion_url bol) s")
  have f1: "emits ?P s s1" "same_caches s s1"
    using fetch_content_default_frame [OF fc] by simp_all
  have g1: "Get (tramitacion_url bol) \<in> set (new_events s s1)"
    using fetch_content_default_requests [OF fc] .
  have key: "\<exists>s2. emits ?P s1 s2 \<and> same_caches s1 s2 \<and>
      (s' = s2 \<or> project \<noteq> [] \<and>
         s' = s2\<lparr>boletin_to_project_id := (boletin_to_project_id s2)(bol \<mapsto> project)\<rparr>)
      \<and> (project = [] \<longrightarrow> s' = s2)"
  proof (cases "c = None \<or> c = Some []")
    case True
    then have "s' = s1"
      using assms None fc by (auto simp: fetch_proyecto_id_from_tramitacion_def)
    then show ?thesis
      using emits_refl same_caches_refl by blast
  next
    case False
    then obtain content where c: "c = Some content" "content \<noteq> []" by auto
    obtain r s2 where px: "parse_html w content s1 = (r, s2)"
      by (cases "parse_html w content s1")
    have f2: "emits ?P s1 s2 \<and> same_caches s1 s2"
      using parse_html_frame [OF px] .
    have "s' = s2 \<and> project = [] \<or>
          project \<noteq> [] \<and>
          s' = s2\<lparr>boletin_to_project_id := (boletin_to_project_id s2)(bol \<mapsto> project)\<rparr>"
      using assms None fc c px
      by (auto simp: fetch_proyecto_id_from_tramitacion_def Let_def
          split: option.splits if_splits)
    then show ?thesis using f2 by blast
  qed
  then obtain s2 where s2: "emits ?P s1 s2" "same_caches s1 s2"
      "s' = s2 \<or> project \<noteq> [] \<and>
         s' = s2\<lparr>boletin_to_project_id := (boletin_to_project_id s2)(bol \<mapsto> project)\<rparr>"
      "project = [] \<longrightarrow> s' = s2"
    by auto
  have ev: "events s' = events s2"
    using s2(3) by auto
  have e02: "emits ?P s s2"
    using f1(1) s2(1) by (rule emits_trans)
  have e: "emits ?P s s'"
    using e02 ev by (simp add: emits_def new_events_def)
  have "new_events s s' = new_events s s1 @ new_events s1 s2"
    using new_events_trans [OF f1(1) s2(1)] ev by (simp add: new_events_def)
  then have g: "Get (tramitacion_url bol) \<in> set (new_events s s')"
    using g1 by simp
  have caches: "same_caches s s2"
    using f1(2) s2(2) by (rule same_caches_trans)
  show ?thesis
    using e g caches s2(3,4) None by (auto simp: same_caches_def)
qed

lemma fetch_urgencias_frame:
  assumes "fetch_urgencias w project bol s = (us, s')"
  shows "emits (stage_event (urgencias_url project bol)) s s' \<and>
         vote_to_boletin s' = vote_to_boletin s \<and>
         boletin_to_project_id s' = boletin_to_project_id s \<and>
         (project_urgencies s' = project_urgencies s \<or>
          project_urgencies s (cache_key project bol) = None \<and>
          project_urgencies s' = (project_urgencies s)(cache_key project bol \<mapsto> us)) \<and>
         (project \<noteq> [] \<and> project_urgencies s (cache_key project bol) = None \<longrightarrow>
            Get (urgencias_url project bol) \<in> set (new_events s s'))"
proof (cases "project = [] \<or> project_urgencies s (cache_key project bol) \<noteq> None")
  case True
  then have "s' = s"
    using assms by (auto simp: fetch_urgencias_def split: if_splits)
  then show ?thesis
    using True by (auto simp: emits_refl)
next
  case False
  then have None: "project \<noteq> []" "project_urgencies s (cache_key project bol) = None" by auto
  let ?P = "stage_event (urgencias_url project bol)"
  obtain c s1 where fc: "fetch_content_default w (urgencias_url project bol) s = (c, s1)"
    by (cases "fetch_content_default w (urgencias_url project bol) s")
  have f1: "emits ?P s s1" "same_caches s s1"
    using fetch_content_default_frame [OF fc] by simp_all
  have g1: "Get (urgencias_url project bol) \<in> set (new_events s s1)"
    using fetch_content_default_requests [OF fc] .
  have key: "\<exists>s2. emits ?P s1 s2 \<and> same_caches s1 s2 \<and>
      (s' = s2 \<or>
         s' = s2\<lparr>project_urgencies := (project_urgencies s2)(cache_key project bol \<mapsto> us)\<rparr>)"
  proof (cases "c = None \<or> c = Some []")
    case True
    then have "s' = s1"
      using assms None fc by (auto simp: fetch_urgencias_def)
    then show ?thesis
      using emits_refl same_caches_refl by blast
  next
    case False
    then obtain content where c: "c = Some content" "content \<noteq> []" by auto
    obtain r s2 where px: "parse_html w content s1 = (r, s2)"
      by (cases "parse_html w content s1")
    have f2: "emits ?P s1 s2 \<and> same_caches s1 s2"
      using parse_html_frame [OF px] .
    have "s' = s2 \<or>
          s' = s2\<lparr>project_urgencies := (project_urgencies s2)(cache_key project bol \<mapsto> us)\<rparr>"
      using assms None fc c px
      by (auto simp: fetch_urgencias_def Let_def split: option.splits if_splits)
    then show ?thesis using f2 by blast
  qed
  then obtain s2 where s2: "emits ?P s1 s2" "same_caches s1 s2"
      "s' = s2 \<or>
         s' = s2\<lparr>project_urgencies := (project_urgencies s2)(cache_key project bol \<mapsto> us)\<rparr>"
    by auto
  have ev: "events s' = events s2"
    using s2(3) by auto
  have e02: "emits ?P s s2"
    using f1(1) s2(1) by (rule emits_trans)
  have e: "emits ?P s s'"
    using e02 ev by (simp add: emits_def new_events_def)
  have "new_events s s' = new_events s s1 @ new_events s1 s2"
    using new_events_trans [OF f1(1) s2(1)] ev by (simp add: new_events_def)
  then have g: "Get (urgencias_url project bol) \<in> set (new_events s s')"
    using g1 by simp
  have caches: "same_caches s s2"
    using f1(2) s2(2) by (rule same_caches_trans)
  show ?thesis
    using e g caches s2(3) None by (auto simp: same_caches_def)
qed

lemma fetch_urgencias_failure:
  assumes "project \<noteq> []" and "project_urgencies s (cache_key project bol) = None"
    and "fetch_content_default w (urgencias_url project bol) s = (c, s1)"
    and "c = None \<or> c = Some [] \<or> (\<exists>x. c = Some x \<and> fst (parse_html w x s1) = None)"
  shows "fst (fetch_urgencias w project bol s) = [] \<and>
         project_urgencies (snd (fetch_urgencias w project bol s)) = project_urgencies s"
proof -
  have sc: "same_caches s s1"
    using fetch_content_default_frame [OF assms(3)] by simp
  show ?thesis
  proof (cases "c = None \<or> c = Some []")
    case True
    then show ?thesis
      using assms(1-3) sc by (auto simp: fetch_urgencias_def same_caches_def)
  next
    case False
    then obtain x where x: "c = Some x" "x \<noteq> []" "fst (parse_html w x s1) = None"
      using assms(4) by auto
    obtain r s2 where px: "parse_html w x s1 = (r, s2)"
      by (cases "parse_html w x s1")
    have "same_caches s1 s2"
      using parse_html_frame [OF px] by simp
    then show ?thesis
      using assms(1-3) sc x px by (auto simp: fetch_urgencias_def same_caches_def)
  qed
qed

lemma url_distinct:
  "vote_url v \<noteq> tramitacion_url b"
  "vote_url v \<noteq> urgencias_url p b"
  "urgencias_url p b' \<noteq> tramitacion_url b"
  "(tramitacion_url b = tramitacion_url b') = (b = b')"
  by (simp_all add: vote_url_def tramitacion_url_def urgencias_url_def)

lemma append_rows_map:
  "append_rows vote bol project urgs results = results @ map (make_row vote bol project) urgs"
  by (induction urgs arbitrary: results) simp_all


lemma fetch_content_default_schedule:
  "\<exists>c s1. fetch_content_default w url s = (c, s1) \<and>
           events s1 = events s @ new_events s s1 \<and>
           retry_schedule (1 / 2) 3 c (new_events s s1)"
proof -
  obtain c s' where f: "fetch_content w url 3 (1 / 2) s = (Inr c, s')"
      "events s' = events s @ new_events s s'"
      "retry_schedule (1 / 2) (nat 3) c (new_events s s')"
    using fetch_content_schedule [OF sleep_length_ok_default] by blast
  have "fetch_content_default w url s = (c, s')"
    using f(1) by (simp add: fetch_content_default_def)
  then show ?thesis
    using f(2,3) by simp
qed

lemma fetch_boletin_for_vote_tail:
  assumes "vote_to_boletin s vote = None"
  shows "\<exists>tail. events (snd (fetch_boletin_for_vote w vote s))
             = events (snd (fetch_content_default w (vote_url vote) s)) @ tail \<and>
           filter is_get tail = [] \<and> filter is_warning tail = []"
proof -
  obtain c s1 where fc: "fetch_content_default w (vote_url vote) s = (c, s1)"
    by (cases "fetch_content_default w (vote_url vote) s")
  show ?thesis
  proof (cases "c = None \<or> c = Some []")
    case True
    then have "snd (fetch_boletin_for_vote w vote s) = s1"
      using assms fc by (auto simp: fetch_boletin_for_vote_def)
    then show ?thesis using fc by simp
  next
    case False
    then obtain content where c: "c = Some content" "content \<noteq> []" by auto
    obtain r s2 where px: "parse_xml w content s1 = (r, s2)"
      by (cases "parse_xml w content s1")
    have "events s2 = events s1 \<or> events s2 = events s1 @ [Log_error XML_parsing_error]"
      using px by (auto simp: parse_xml_def logging_error_def log_event_def
          split: xml_outcome.splits)
    moreover have "events (snd (fetch_boletin_for_vote w vote s)) = events s2"
      using assms fc c px
      by (auto simp: fetch_boletin_for_vote_def Let_def split: option.splits)
    ultimately show ?thesis
      using fc by auto
  qed
qed

section \<open>Properties of the pipeline driver\<close>

lemmas run_defs = fetch_boletin_for_vote_def fetch_proyecto_id_from_tramitacion_def
  fetch_urgencias_def fetch_content_default_def fetch_content_def time_sleep_def
  requests_get_def logging_warning_def logging_error_def log_event_def parse_xml_def
  parse_html_def process_vote_def init_state_def new_events_def numeral_3_eq_3
  vote_url_def tramitacion_url_def urgencias_url_def cache_key_def Let_def demo_href_def demo_href2_def


lemmas demo_defs = run_defs w_demo_def clean_text_def py_split_def py_isspace_def
  scrape_urgencies_def has_marker_def menu_table_def urgency_table_def

lemma stage_event_get: "stage_event url (Get u) \<Longrightarrow> u = url"
  by simp

lemma stage_event_warning:
  "stage_event url e \<Longrightarrow> is_warning e \<Longrightarrow> \<exists>k. e = Log_warning (Attempt_failed k url)"
  by (cases e) (auto split: message.splits)

lemma emits_mem: "emits P s s' \<Longrightarrow> e \<in> set (new_events s s') \<Longrightarrow> P e"
  by (simp add: emits_def list_all_iff)

lemma emits_events: "emits P s s' \<Longrightarrow> events s' = events s @ new_events s s'"
  by (simp add: emits_def)

lemma process_vote_no_boletin:
  "fst (fetch_boletin_for_vote w vote s) = [] \<Longrightarrow>
   process_vote w vote (results, s) = (results, snd (fetch_boletin_for_vote w vote s))"
  by (cases "fetch_boletin_for_vote w vote s") (simp add: process_vote_def)

lemma demo_stage1: "fst (fetch_boletin_for_vote w_demo ''12345'' init_state) = ''9876-06''"
  by (simp add: demo_defs)

lemma demo_stage2:
  "fst (fetch_proyecto_id_from_tramitacion w_demo ''9876-06''
         (snd (fetch_boletin_for_vote w_demo ''12345'' init_state))) = ''555''"
  by (simp add: demo_defs)

lemma demo_stage3:
  "length (fst (fetch_urgencias w_demo ''555'' ''9876-06''
         (snd (fetch_proyecto_id_from_tramitacion w_demo ''9876-06''
           (snd (fetch_boletin_for_vote w_demo ''12345'' init_state)))))) = 2"
  by (simp add: demo_defs)

lemma demo2_stage1: "fst (fetch_boletin_for_vote w_demo ''12347'' init_state) = ''1111-07''"
  by (simp add: demo_defs)

lemma demo2_stage2:
  "fst (fetch_proyecto_id_from_tramitacion w_demo ''1111-07''
         (snd (fetch_boletin_for_vote w_demo ''12347'' init_state))) = ''77''"
  by (simp add: demo_defs)

lemma demo2_stage3:
  "fst (fetch_urgencias w_demo ''77'' ''1111-07''
         (snd (fetch_proyecto_id_from_tramitacion w_demo ''1111-07''
           (snd (fetch_boletin_for_vote w_demo ''12347'' init_state))))) = []"
  by (simp add: demo_defs)

lemma pair_fst_snd: "fst p = a \<Longrightarrow> p = (a, snd p)"
  by (cases p) simp

lemma demo_no_boletin: "fst (fetch_boletin_for_vote w_demo ''999'' init_state) = []"
  by (simp add: demo_defs)

lemma demo_no_boletin_events:
  "new_events init_state (snd (fetch_boletin_for_vote w_demo ''999'' init_state))
     = [Sleep (1 / 2), Get (vote_url ''999'')]"
  by (simp add: demo_defs)

text \<open>
  Claim C1. For a seed whose chain resolves (the bulletin and the project id are both
  non-empty), the iteration appends \<open>max 1 n\<close> rows, where \<open>n\<close> is the number of
  urgency records: one row per record when there are records, and otherwise exactly one
  row whose six urgency fields are empty strings.
\<close>

theorem left_join_rows:
  assumes "fetch_boletin_for_vote w vote s = (bol, s1)" and "bol \<noteq> []"
    and "fetch_proyecto_id_from_tramitacion w bol s1 = (project, s2)" and "project \<noteq> []"
    and "fetch_urgencias w project bol s2 = (urgency_list, s3)"
  shows "length (fst (process_vote w vote (results, s)))
           = length results + max 1 (length urgency_list) \<and>
         fst (process_vote w vote (results, s))
           = results @
             (if urgency_list = []
              then [\<lparr>urgencia_fecha_inicio = [], urgencia_fecha_termino = [],
                      urgencia_tipo = [], urgencia_oficio = [], urgencia_mensaje_ing = [],
                      urgencia_mensaje_ret = [],
                      vote_id = vote, boletin = bol, proyecto_id = project\<rparr>]
              else map (make_row vote bol project) urgency_list)"
  using assms by (cases urgency_list) (simp_all add: process_vote_def append_rows_map empty_row_def)

theorem left_join_rows_witness:
  "length (fst (process_vote w_demo ''12345'' ([], init_state))) = 2 \<and>
   fst (process_vote w_demo ''12347'' ([], init_state))
     = [\<lparr>urgencia_fecha_inicio = [], urgencia_fecha_termino = [],
          urgencia_tipo = [], urgencia_oficio = [], urgencia_mensaje_ing = [],
          urgencia_mensaje_ret = [],
          vote_id = ''12347'', boletin = ''1111-07'', proyecto_id = ''77''\<rparr>]"
proof -
  have n1: "''9876-06'' \<noteq> ([] :: string)" and n2: "''555'' \<noteq> ([] :: string)"
    and n3: "''1111-07'' \<noteq> ([] :: string)" and n4: "''77'' \<noteq> ([] :: string)"
    by simp_all
  note t1 = left_join_rows [OF pair_fst_snd [OF demo_stage1] n1 pair_fst_snd [OF demo_stage2] n2
      surjective_pairing, of "[]"]
  note t2 = left_join_rows [OF pair_fst_snd [OF demo2_stage1] n3 pair_fst_snd [OF demo2_stage2] n4
      surjective_pairing, of "[]"]
  have a: "length (fst (process_vote w_demo ''12345'' ([], init_state))) = 2"
    using conjunct1 [OF t1] by (simp add: demo_stage3)
  have b: "fst (process_vote w_demo ''12347'' ([], init_state))
     = [\<lparr>urgencia_fecha_inicio = [], urgencia_fecha_termino = [],
          urgencia_tipo = [], urgencia_oficio = [], urgencia_mensaje_ing = [],
          urgencia_mensaje_ret = [],
          vote_id = ''12347'', boletin = ''1111-07'', proyecto_id = ''77''\<rparr>]"
    using conjunct2 [OF t2] by (simp add: demo2_stage3)
  show ?thesis
    using a b by (rule conjI)
qed

text \<open>
  Claim C4. When the structured-record stage returns an empty bulletin for a seed, the
  iteration ends there: no row is added, and every HTTP request made for the seed is for
  its vote-detail URL, so neither the tramitacion page nor the urgency page is fetched.
\<close>

theorem chain_short_circuit:
  assumes "fst (fetch_boletin_for_vote w vote s) = []"
  shows "process_vote w vote (results, s) = (results, snd (fetch_boletin_for_vote w vote s)) \<and>
         events (snd (process_vote w vote (results, s)))
           = events s @ new_events s (snd (process_vote w vote (results, s))) \<and>
         (\<forall>u. Get u \<in> set (new_events s (snd (process_vote w vote (results, s))))
              \<longrightarrow> u = vote_url vote) \<and>
         (\<forall>b. Get (tramitacion_url b)
              \<notin> set (new_events s (snd (process_vote w vote (results, s))))) \<and>
         (\<forall>p b. Get (urgencias_url p b)
              \<notin> set (new_events s (snd (process_vote w vote (results, s)))))"
proof -
  let ?s1 = "snd (fetch_boletin_for_vote w vote s)"
  have pv: "process_vote w vote (results, s) = (results, ?s1)"
    using assms by (rule process_vote_no_boletin)
  have "fetch_boletin_for_vote w vote s = ([], ?s1)"
    using assms by (simp add: prod_eq_iff)
  then have em: "emits (stage_event (vote_url vote)) s ?s1"
    using fetch_boletin_for_vote_frame by blast
  have gets: "\<And>u. Get u \<in> set (new_events s ?s1) \<Longrightarrow> u = vote_url vote"
    using emits_mem [OF em] stage_event_get by blast
  have "\<And>b. Get (tramitacion_url b) \<notin> set (new_events s ?s1)"
    using gets url_distinct(1) by metis
  moreover have "\<And>p b. Get (urgencias_url p b) \<notin> set (new_events s ?s1)"
    using gets url_distinct(2) by metis
  ultimately show ?thesis
    using pv gets emits_events [OF em] by simp
qed

theorem chain_short_circuit_witness:
  "fst (fetch_boletin_for_vote w_demo ''999'' init_state) = [] \<and>
   process_vote w_demo ''999'' ([], init_state)
     = ([], snd (fetch_boletin_for_vote w_demo ''999'' init_state)) \<and>
   new_events init_state (snd (fetch_boletin_for_vote w_demo ''999'' init_state))
     = [Sleep (1 / 2), Get (vote_url ''999'')]"
proof -
  have "process_vote w_demo ''999'' ([], init_state)
          = ([], snd (fetch_boletin_for_vote w_demo ''999'' init_state))"
    using chain_short_circuit [OF demo_no_boletin, of "[]"] by (rule conjunct1)
  then show ?thesis
    using demo_no_boletin demo_no_boletin_events by blast
qed

text \<open>
  Claim C7, as stated: a seed with an empty bulletin logs exactly one warning. It fails
  for seed 999 of the example upstream, whose record is fetched at the first attempt and
  has no bulletin: no warning is logged at all.
\<close>

theorem missing_bulletin_one_warning_counterexample:
  "fst (fetch_boletin_for_vote w_demo ''999'' init_state) = [] \<and>
   length (filter is_warning
     (new_events init_state (snd (process_vote w_demo ''999'' ([], init_state))))) \<noteq> 1"
  by (simp add: run_defs w_demo_def clean_text_def)

text \<open>
  Claim C7, amended. When the structured-record stage yields an empty bulletin for a
  seed, no row is added for it and the driver logs nothing of its own: the state after
  the iteration is the state after the bulletin lookup. The warnings of the seed are the
  Fetcher's, each about a failed attempt on the vote-detail URL, one for every HTTP
  request of the seed except a final successful one: the requests number the warnings,
  plus one when the record was fetched. So there are at most three warnings, and none
  when the record is fetched with a single request. The run goes on with the next seed.
\<close>

theorem missing_bulletin_skips_seed:
  assumes "fst (fetch_boletin_for_vote w vote s) = []"
  shows "fst (process_vote w vote (results, s)) = results \<and>
         snd (process_vote w vote (results, s)) = snd (fetch_boletin_for_vote w vote s) \<and>
         (\<forall>e \<in> set (new_events s (snd (process_vote w vote (results, s)))).
            is_warning e \<longrightarrow> (\<exists>k. e = Log_warning (Attempt_failed k (vote_url vote)))) \<and>
         length (filter is_get (new_events s (snd (process_vote w vote (results, s)))))
           = length (filter is_warning (new_events s (snd (process_vote w vote (results, s)))))
             + (if vote_to_boletin s vote = None \<and>
                   fst (fetch_content_default w (vote_url vote) s) \<noteq> None
                then 1 else 0) \<and>
         length (filter is_warning (new_events s (snd (process_vote w vote (results, s)))))
           \<le> 3 \<and>
         main_loop w (vote # votes) (results, s)
           = main_loop w votes (results, snd (fetch_boletin_for_vote w vote s))"
proof -
  let ?s1 = "snd (fetch_boletin_for_vote w vote s)"
  let ?evs = "new_events s ?s1"
  have pv: "process_vote w vote (results, s) = (results, ?s1)"
    using assms by (rule process_vote_no_boletin)
  have "fetch_boletin_for_vote w vote s = ([], ?s1)"
    using assms by (simp add: prod_eq_iff)
  then have em: "emits (stage_event (vote_url vote)) s ?s1"
    using fetch_boletin_for_vote_frame by blast
  have form: "\<forall>e \<in> set ?evs.
          is_warning e \<longrightarrow> (\<exists>k. e = Log_warning (Attempt_failed k (vote_url vote)))"
    using emits_mem [OF em] stage_event_warning by blast
  have count: "length (filter is_get ?evs)
           = length (filter is_warning ?evs)
             + (if vote_to_boletin s vote = None \<and>
                   fst (fetch_content_default w (vote_url vote) s) \<noteq> None
                then 1 else 0) \<and>
         length (filter is_warning ?evs) \<le> 3"
  proof (cases "vote_to_boletin s vote")
    case (Some b)
    then have "?s1 = s"
      by (simp add: fetch_boletin_for_vote_def)
    then show ?thesis
      using Some by (simp add: new_events_def)
  next
    case None
    obtain c s0 where fc: "fetch_content_default w (vote_url vote) s = (c, s0)"
        "events s0 = events s @ new_events s s0"
        "retry_schedule (1 / 2) 3 c (new_events s s0)"
      using fetch_content_default_schedule by blast
    obtain tail where t: "events ?s1 = events s0 @ tail"
        "filter is_get tail = []" "filter is_warning tail = []"
      using fetch_boletin_for_vote_tail [OF None, of w] fc(1) by auto
    have "events ?s1 = events s @ (new_events s s0 @ tail)"
      using t(1) fc(2) by simp
    then have "?evs = new_events s s0 @ tail"
      by (rule new_events_append)
    then have "filter is_get ?evs = filter is_get (new_events s s0)"
        "filter is_warning ?evs = filter is_warning (new_events s s0)"
      using t(2,3) by simp_all
    then show ?thesis
      using fc(1,3) None by (simp add: retry_schedule_def)
  qed
  show ?thesis
    using pv form count by simp
qed

theorem missing_bulletin_skips_seed_witness:
  "fst (fetch_boletin_for_vote w_demo ''999'' init_state) = [] \<and>
   fst (process_vote w_demo ''999'' ([], init_state)) = [] \<and>
   length (filter is_get
     (new_events init_state (snd (process_vote w_demo ''999'' ([], init_state)))))
     = length (filter is_warning
         (new_events init_state (snd (process_vote w_demo ''999'' ([], init_state)))))
       + (if vote_to_boletin init_state ''999'' = None \<and>
             fst (fetch_content_default w_demo (vote_url ''999'') init_state) \<noteq> None
          then 1 else 0) \<and>
   vote_to_boletin init_state ''999'' = None \<and>
   fst (fetch_content_default w_demo (vote_url ''999'') init_state) = Some ''E'' \<and>
   length (filter is_get
     (new_events init_state (snd (process_vote w_demo ''999'' ([], init_state))))) = 1 \<and>
   main_loop w_demo [''999'', ''12345''] ([], init_state)
     = main_loop w_demo [''12345'']
         ([], snd (fetch_boletin_for_vote w_demo ''999'' init_state))"
proof -
  note t = missing_bulletin_skips_seed [OF demo_no_boletin, of "[]" "[''12345'']"]
  have a: "fst (process_vote w_demo ''999'' ([], init_state)) = []"
    using t by (rule conjunct1)
  have b: "length (filter is_get
     (new_events init_state (snd (process_vote w_demo ''999'' ([], init_state)))))
     = length (filter is_warning
         (new_events init_state (snd (process_vote w_demo ''999'' ([], init_state)))))
       + (if vote_to_boletin init_state ''999'' = None \<and>
             fst (fetch_content_default w_demo (vote_url ''999'') init_state) \<noteq> None
          then 1 else 0)"
    using t by blast
  have c: "main_loop w_demo [''999'', ''12345''] ([], init_state)
     = main_loop w_demo [''12345'']
         ([], snd (fetch_boletin_for_vote w_demo ''999'' init_state))"
    using t by blast
  have d: "vote_to_boletin init_state ''999'' = None"
      "fst (fetch_content_default w_demo (vote_url ''999'') init_state) = Some ''E''"
    by (simp_all add: demo_defs)
  have "snd (process_vote w_demo ''999'' ([], init_state))
          = snd (fetch_boletin_for_vote w_demo ''999'' init_state)"
    using t by blast
  then have e: "length (filter is_get
     (new_events init_state (snd (process_vote w_demo ''999'' ([], init_state))))) = 1"
    using demo_no_boletin_events by simp
  show ?thesis
    using demo_no_boletin a b c d e by blast
qed

section \<open>Memoization of the project id\<close>

lemma fetch_proyecto_id_cached_after:
  assumes "fetch_proyecto_id_from_tramitacion w bol s = (project, s')" and "project \<noteq> []"
  shows "boletin_to_project_id s' bol = Some project"
proof (cases "boletin_to_project_id s bol")
  case (Some p)
  then show ?thesis
    using assms by (auto simp: fetch_proyecto_id_from_tramitacion_def split: if_splits)
next
  case None
  have "boletin_to_project_id s' = boletin_to_project_id s \<or>
        boletin_to_project_id s' = (boletin_to_project_id s)(bol \<mapsto> project)"
    using fetch_proyecto_id_from_tramitacion_frame [OF assms(1)] by blast
  moreover have "project = [] \<or> boletin_to_project_id s' \<noteq> boletin_to_project_id s"
    using assms(1) None
    by (auto simp: fetch_proyecto_id_from_tramitacion_def Let_def
        split: if_splits option.splits prod.splits dest: fun_cong [where x = bol])
  ultimately show ?thesis
    using assms(2) by auto
qed

lemma stage_event_not_tramitacion:
  "url \<noteq> tramitacion_url b \<Longrightarrow> stage_event url e \<Longrightarrow> not_tramitacion b e"
  by (cases e) (auto simp: not_tramitacion_def)

lemma process_vote_keeps_project:
  assumes "boletin_to_project_id s b = Some p"
  shows "emits (not_tramitacion b) s (snd (process_vote w v (res, s))) \<and>
         boletin_to_project_id (snd (process_vote w v (res, s))) b = Some p"
proof -
  let ?Q = "not_tramitacion b"
  obtain bol s1 where st1: "fetch_boletin_for_vote w v s = (bol, s1)"
    by (cases "fetch_boletin_for_vote w v s")
  have f1: "emits (stage_event (vote_url v)) s s1"
      "boletin_to_project_id s1 = boletin_to_project_id s"
    using fetch_boletin_for_vote_frame [OF st1] by simp_all
  have e1: "emits ?Q s s1"
    using f1(1) stage_event_not_tramitacion [OF url_distinct(1)] by (rule emits_mono)
  have c1: "boletin_to_project_id s1 b = Some p"
    using f1(2) assms by simp
  show ?thesis
  proof (cases "bol = []")
    case True
    then have "process_vote w v (res, s) = (res, s1)"
      using st1 by (simp add: process_vote_def)
    then show ?thesis using e1 c1 by simp
  next
    case bol: False
    obtain project s2 where st2: "fetch_proyecto_id_from_tramitacion w bol s1 = (project, s2)"
      by (cases "fetch_proyecto_id_from_tramitacion w bol s1")
    note f2 = fetch_proyecto_id_from_tramitacion_frame [OF st2]
    have e2: "emits ?Q s1 s2"
    proof (cases "bol = b")
      case True
      then have "s2 = s1" using f2 c1 by auto
      then show ?thesis by (simp add: emits_refl)
    next
      case False
      then have "tramitacion_url bol \<noteq> tramitacion_url b"
        by (simp add: url_distinct(4))
      then show ?thesis
        using f2 stage_event_not_tramitacion emits_mono by blast
    qed
    have "boletin_to_project_id s2 = boletin_to_project_id s1 \<or>
          boletin_to_project_id s1 bol = None \<and>
          boletin_to_project_id s2 = (boletin_to_project_id s1)(bol \<mapsto> project)"
      using f2 by blast
    then have c2: "boletin_to_project_id s2 b = Some p"
    proof
      assume "boletin_to_project_id s2 = boletin_to_project_id s1"
      then show ?thesis using c1 by simp
    next
      assume u: "boletin_to_project_id s1 bol = None \<and>
          boletin_to_project_id s2 = (boletin_to_project_id s1)(bol \<mapsto> project)"
      then have "bol \<noteq> b" using c1 by auto
      then show ?thesis using u c1 by simp
    qed
    have e02: "emits ?Q s s2"
      using e1 e2 by (rule emits_trans)
    show ?thesis
    proof (cases "project = []")
      case True
      then have pv: "process_vote w v (res, s) = (res, logging_warning (No_project_id bol) s2)"
        using st1 st2 bol by (simp add: process_vote_def)
      have "emits ?Q s2 (logging_warning (No_project_id bol) s2)"
        unfolding logging_warning_def
        by (rule emits_log_event) (simp add: not_tramitacion_def)
      then have "emits ?Q s (logging_warning (No_project_id bol) s2)"
        using e02 emits_trans by blast
      moreover have "boletin_to_project_id (logging_warning (No_project_id bol) s2) b = Some p"
        using c2 by (simp add: logging_warning_def log_event_def)
      ultimately show ?thesis using pv by simp
    next
      case project: False
      obtain us s3 where st3: "fetch_urgencias w project bol s2 = (us, s3)"
        by (cases "fetch_urgencias w project bol s2")
      note f3 = fetch_urgencias_frame [OF st3]
      have "snd (process_vote w v (res, s)) = s3"
        using st1 st2 st3 bol project by (simp add: process_vote_def)
      moreover have "emits ?Q s2 s3"
        using f3 stage_event_not_tramitacion [OF url_distinct(3)] emits_mono by blast
      then have "emits ?Q s s3"
        using e02 emits_trans by blast
      moreover have "boletin_to_project_id s3 b = Some p"
        using f3 c2 by simp
      ultimately show ?thesis by simp
    qed
  qed
qed

lemma main_loop_keeps_project:
  "boletin_to_project_id s b = Some p \<Longrightarrow>
   emits (not_tramitacion b) s (snd (main_loop w votes (res, s))) \<and>
   boletin_to_project_id (snd (main_loop w votes (res, s))) b = Some p"
proof (induction votes arbitrary: res s)
  case Nil
  then show ?case by (simp add: emits_refl)
next
  case (Cons v votes)
  obtain res1 s1 where pv: "process_vote w v (res, s) = (res1, s1)"
    by (cases "process_vote w v (res, s)")
  have k: "emits (not_tramitacion b) s s1" "boletin_to_project_id s1 b = Some p"
    using process_vote_keeps_project [OF Cons.prems, of w v res] pv by simp_all
  have "emits (not_tramitacion b) s1 (snd (main_loop w votes (res1, s1))) \<and>
        boletin_to_project_id (snd (main_loop w votes (res1, s1))) b = Some p"
    using Cons.IH [OF k(2)] .
  then show ?case
    using k(1) pv emits_trans by auto
qed

lemma process_vote_resolved:
  assumes "fetch_boletin_for_vote w vote s = (bol, s1)" and "bol \<noteq> []"
    and "fetch_proyecto_id_from_tramitacion w bol s1 = (project, s2)" and "project \<noteq> []"
  shows "boletin_to_project_id (snd (process_vote w vote (results, s))) bol = Some project"
proof -
  obtain us s3 where st3: "fetch_urgencias w project bol s2 = (us, s3)"
    by (cases "fetch_urgencias w project bol s2")
  have "snd (process_vote w vote (results, s)) = s3"
    using assms st3 by (simp add: process_vote_def)
  moreover have "boletin_to_project_id s2 bol = Some project"
    using fetch_proyecto_id_cached_after [OF assms(3,4)] .
  moreover have "boletin_to_project_id s3 = boletin_to_project_id s2"
    using fetch_urgencias_frame [OF st3] by simp
  ultimately show ?thesis by simp
qed

text \<open>
  Claim C2, as stated: two seeds that resolve to the same bulletin cause at most one fetch
  of that bulletin's tramitacion page. It fails when the page yields no project id: with
  the upstream \<open>w_nolink\<close> the seeds 12345 and 12346 both resolve to bulletin 9876-06 and
  the page is requested once for each of them.
\<close>

theorem tramitacion_fetched_twice:
  "fst (fetch_boletin_for_vote w_nolink ''12345'' init_state) = ''9876-06'' \<and>
   fst (fetch_boletin_for_vote w_nolink ''12346''
         (snd (process_vote w_nolink ''12345'' ([], init_state)))) = ''9876-06'' \<and>
   \<not> length (filter (\<lambda>e. e = Get (tramitacion_url ''9876-06''))
         (events (snd (main_loop w_nolink [''12345'', ''12346''] ([], init_state))))) \<le> 1"
  by (simp add: demo_defs w_nolink_def)

text \<open>
  Claim C2, amended. Once a seed has resolved its bulletin to a non-empty project id, the
  tramitacion page of that bulletin is not requested again in the rest of the run,
  whatever seeds follow. A lookup that ends without project id stores nothing and is
  repeated for every seed of that bulletin.
\<close>

theorem tramitacion_not_refetched:
  assumes "fetch_boletin_for_vote w vote s = (bol, s1)" and "bol \<noteq> []"
    and "fetch_proyecto_id_from_tramitacion w bol s1 = (project, s2)" and "project \<noteq> []"
  shows "events (snd (main_loop w votes (process_vote w vote (results, s))))
           = events (snd (process_vote w vote (results, s)))
             @ new_events (snd (process_vote w vote (results, s)))
                 (snd (main_loop w votes (process_vote w vote (results, s)))) \<and>
         Get (tramitacion_url bol)
           \<notin> set (new_events (snd (process_vote w vote (results, s)))
                   (snd (main_loop w votes (process_vote w vote (results, s)))))"
proof -
  obtain res1 s3 where pv: "process_vote w vote (results, s) = (res1, s3)"
    by (cases "process_vote w vote (results, s)")
  have "boletin_to_project_id s3 bol = Some project"
    using process_vote_resolved [OF assms, of results] pv by simp
  then have em: "emits (not_tramitacion bol) s3 (snd (main_loop w votes (res1, s3)))"
    using main_loop_keeps_project by blast
  have "Get (tramitacion_url bol) \<notin> set (new_events s3 (snd (main_loop w votes (res1, s3))))"
    using emits_mem [OF em] by (auto simp: not_tramitacion_def)
  then show ?thesis
    using emits_events [OF em] pv by simp
qed

theorem tramitacion_not_refetched_witness:
  "fst (fetch_boletin_for_vote w_demo ''12345'' init_state) = ''9876-06'' \<and>
   fst (fetch_proyecto_id_from_tramitacion w_demo ''9876-06''
         (snd (fetch_boletin_for_vote w_demo ''12345'' init_state))) = ''555'' \<and>
   Get (tramitacion_url ''9876-06'')
     \<notin> set (new_events (snd (process_vote w_demo ''12345'' ([], init_state)))
             (snd (main_loop w_demo [''12346'', ''12345'']
                    (process_vote w_demo ''12345'' ([], init_state))))) \<and>
   length (fst (main_loop w_demo [''12346'', ''12345'']
                    (process_vote w_demo ''12345'' ([], init_state)))) = 6"
proof -
  have n1: "''9876-06'' \<noteq> ([] :: string)" and n2: "''555'' \<noteq> ([] :: string)"
    by simp_all
  note t = tramitacion_not_refetched [OF pair_fst_snd [OF demo_stage1] n1
      pair_fst_snd [OF demo_stage2] n2, of "[''12346'', ''12345'']" "[]"]
  have a: "Get (tramitacion_url ''9876-06'')
     \<notin> set (new_events (snd (process_vote w_demo ''12345'' ([], init_state)))
             (snd (main_loop w_demo [''12346'', ''12345'']
                    (process_vote w_demo ''12345'' ([], init_state)))))"
    using t by (rule conjunct2)
  have b: "length (fst (main_loop w_demo [''12346'', ''12345'']
                    (process_vote w_demo ''12345'' ([], init_state)))) = 6"
    by (simp add: demo_defs)
  show ?thesis
    using demo_stage1 demo_stage2 a b by blast
qed

section \<open>No negative caching\<close>

lemma no_empty_cached_init: "no_empty_cached init_state"
  by (simp add: no_empty_cached_def init_state_def)

lemma ran_upd_nonempty: "[] \<notin> ran m \<Longrightarrow> v \<noteq> [] \<Longrightarrow> [] \<notin> ran (m(k \<mapsto> v))"
  by (auto simp: ran_def split: if_splits)

lemma no_value_stage1:
  assumes "no_empty_cached s" and "fst (fetch_boletin_for_vote w vote s) = []"
  shows "vote_to_boletin (snd (fetch_boletin_for_vote w vote s)) = vote_to_boletin s \<and>
         vote_to_boletin (snd (fetch_boletin_for_vote w vote s)) vote = None \<and>
         Get (vote_url vote)
           \<in> set (new_events (snd (fetch_boletin_for_vote w vote s))
                   (snd (fetch_boletin_for_vote w' vote (snd (fetch_boletin_for_vote w vote s)))))"
proof -
  let ?s' = "snd (fetch_boletin_for_vote w vote s)"
  have r: "fetch_boletin_for_vote w vote s = ([], ?s')"
    using assms(2) by (rule pair_fst_snd)
  have same: "vote_to_boletin ?s' = vote_to_boletin s"
    using fetch_boletin_for_vote_frame [OF r] by simp
  have none: "vote_to_boletin s vote = None"
  proof (cases "vote_to_boletin s vote")
    case None
    then show ?thesis .
  next
    case (Some b)
    then have "b \<noteq> []"
      using assms(1) by (auto simp: no_empty_cached_def ran_def)
    moreover have "fst (fetch_boletin_for_vote w vote s) = b"
      using Some by (simp add: fetch_boletin_for_vote_cached)
    ultimately show ?thesis using assms(2) by simp
  qed
  have "Get (vote_url vote)
          \<in> set (new_events ?s' (snd (fetch_boletin_for_vote w' vote ?s')))"
    using fetch_boletin_for_vote_frame [OF surjective_pairing [of "fetch_boletin_for_vote w' vote ?s'"]]
      none same
    by simp
  then show ?thesis using same none by simp
qed

lemma no_value_stage2:
  assumes "no_empty_cached s" and "bol \<noteq> []"
    and "fst (fetch_proyecto_id_from_tramitacion w bol s) = []"
  shows "boletin_to_project_id (snd (fetch_proyecto_id_from_tramitacion w bol s))
           = boletin_to_project_id s \<and>
         boletin_to_project_id (snd (fetch_proyecto_id_from_tramitacion w bol s)) bol = None \<and>
         Get (tramitacion_url bol)
           \<in> set (new_events (snd (fetch_proyecto_id_from_tramitacion w bol s))
                   (snd (fetch_proyecto_id_from_tramitacion w' bol
                          (snd (fetch_proyecto_id_from_tramitacion w bol s)))))"
proof -
  let ?s' = "snd (fetch_proyecto_id_from_tramitacion w bol s)"
  have r: "fetch_proyecto_id_from_tramitacion w bol s = ([], ?s')"
    using assms(3) by (rule pair_fst_snd)
  have same: "boletin_to_project_id ?s' = boletin_to_project_id s"
    using fetch_proyecto_id_from_tramitacion_frame [OF r] by simp
  have none: "boletin_to_project_id s bol = None"
  proof (cases "boletin_to_project_id s bol")
    case None
    then show ?thesis .
  next
    case (Some p)
    then have "p \<noteq> []"
      using assms(1) by (auto simp: no_empty_cached_def ran_def)
    moreover have "fst (fetch_proyecto_id_from_tramitacion w bol s) = p"
      using Some assms(2) by (simp add: fetch_proyecto_id_from_tramitacion_def)
    ultimately show ?thesis using assms(3) by simp
  qed
  have "Get (tramitacion_url bol)
          \<in> set (new_events ?s' (snd (fetch_proyecto_id_from_tramitacion w' bol ?s')))"
    using fetch_proyecto_id_from_tramitacion_frame
        [OF surjective_pairing [of "fetch_proyecto_id_from_tramitacion w' bol ?s'"]]
      none same assms(2)
    by simp
  then show ?thesis using same none by simp
qed

lemma no_value_stage3:
  assumes "project \<noteq> []" and "project_urgencies s (cache_key project bol) = None"
    and "urgencias_stage_fails w project bol s"
  shows "fst (fetch_urgencias w project bol s) = [] \<and>
         project_urgencies (snd (fetch_urgencias w project bol s)) = project_urgencies s \<and>
         Get (urgencias_url project bol)
           \<in> set (new_events (snd (fetch_urgencias w project bol s))
                   (snd (fetch_urgencias w' project bol (snd (fetch_urgencias w project bol s)))))"
proof -
  let ?s' = "snd (fetch_urgencias w project bol s)"
  obtain c s1 where fc: "fetch_content_default w (urgencias_url project bol) s = (c, s1)"
    by (cases "fetch_content_default w (urgencias_url project bol) s")
  have "c = None \<or> c = Some [] \<or> (\<exists>x. c = Some x \<and> fst (parse_html w x s1) = None)"
    using assms(3) fc by (auto simp: urgencias_stage_fails_def split: option.splits)
  then have f: "fst (fetch_urgencias w project bol s) = [] \<and>
      project_urgencies ?s' = project_urgencies s"
    using fetch_urgencias_failure [OF assms(1,2) fc] by blast
  have "Get (urgencias_url project bol)
          \<in> set (new_events ?s' (snd (fetch_urgencias w' project bol ?s')))"
    using fetch_urgencias_frame [OF surjective_pairing [of "fetch_urgencias w' project bol ?s'"]]
      f assms(1,2)
    by simp
  then show ?thesis using f by simp
qed

lemma no_empty_cached_stage1:
  assumes "no_empty_cached s"
  shows "no_empty_cached (snd (fetch_boletin_for_vote w vote s))"
proof -
  note f = fetch_boletin_for_vote_frame [OF surjective_pairing [of "fetch_boletin_for_vote w vote s"]]
  let ?b = "fst (fetch_boletin_for_vote w vote s)"
  let ?s' = "snd (fetch_boletin_for_vote w vote s)"
  have "vote_to_boletin ?s' = vote_to_boletin s \<or>
        ?b \<noteq> [] \<and> vote_to_boletin ?s' = (vote_to_boletin s)(vote \<mapsto> ?b)"
    using f by blast
  then have "[] \<notin> ran (vote_to_boletin ?s')"
  proof
    assume "vote_to_boletin ?s' = vote_to_boletin s"
    then show ?thesis using assms by (simp add: no_empty_cached_def)
  next
    assume "?b \<noteq> [] \<and> vote_to_boletin ?s' = (vote_to_boletin s)(vote \<mapsto> ?b)"
    then show ?thesis
      using assms ran_upd_nonempty [of "vote_to_boletin s" ?b vote]
      by (simp add: no_empty_cached_def)
  qed
  moreover have "boletin_to_project_id ?s' = boletin_to_project_id s"
    using f by simp
  ultimately show ?thesis
    using assms by (simp add: no_empty_cached_def)
qed

lemma no_empty_cached_stage2:
  assumes "no_empty_cached s"
  shows "no_empty_cached (snd (fetch_proyecto_id_from_tramitacion w bol s))"
proof -
  note f = fetch_proyecto_id_from_tramitacion_frame
      [OF surjective_pairing [of "fetch_proyecto_id_from_tramitacion w bol s"]]
  let ?p = "fst (fetch_proyecto_id_from_tramitacion w bol s)"
  let ?s' = "snd (fetch_proyecto_id_from_tramitacion w bol s)"
  have "boletin_to_project_id ?s' = boletin_to_project_id s \<or>
        ?p \<noteq> [] \<and> boletin_to_project_id ?s' = (boletin_to_project_id s)(bol \<mapsto> ?p)"
    using f by blast
  then have "[] \<notin> ran (boletin_to_project_id ?s')"
  proof
    assume "boletin_to_project_id ?s' = boletin_to_project_id s"
    then show ?thesis using assms by (simp add: no_empty_cached_def)
  next
    assume "?p \<noteq> [] \<and> boletin_to_project_id ?s' = (boletin_to_project_id s)(bol \<mapsto> ?p)"
    then show ?thesis
      using assms ran_upd_nonempty [of "boletin_to_project_id s" ?p bol]
      by (simp add: no_empty_cached_def)
  qed
  moreover have "vote_to_boletin ?s' = vote_to_boletin s"
    using f by simp
  ultimately show ?thesis
    using assms by (simp add: no_empty_cached_def)
qed

text \<open>
  Claim C3. In every stage a lookup that ends with no value stores nothing in the stage's
  cache, so the key is still absent and a later lookup of the same key requests the page
  again: for the bulletin of a vote (empty bulletin), for the project id of a non-empty
  bulletin (empty project id), and for the urgency list of a project (stage failure: no
  content or no parse). Only positive results are stored: the identifier caches never
  hold an empty string.
\<close>

theorem no_value_not_cached:
  "(no_empty_cached s \<and> fst (fetch_boletin_for_vote w vote s) = [] \<longrightarrow>
      vote_to_boletin (snd (fetch_boletin_for_vote w vote s)) = vote_to_boletin s \<and>
      vote_to_boletin (snd (fetch_boletin_for_vote w vote s)) vote = None \<and>
      Get (vote_url vote)
        \<in> set (new_events (snd (fetch_boletin_for_vote w vote s))
                (snd (fetch_boletin_for_vote w' vote (snd (fetch_boletin_for_vote w vote s))))))
   \<and>
   (no_empty_cached s \<and> bol \<noteq> [] \<and> fst (fetch_proyecto_id_from_tramitacion w bol s) = [] \<longrightarrow>
      boletin_to_project_id (snd (fetch_proyecto_id_from_tramitacion w bol s))
        = boletin_to_project_id s \<and>
      boletin_to_project_id (snd (fetch_proyecto_id_from_tramitacion w bol s)) bol = None \<and>
      Get (tramitacion_url bol)
        \<in> set (new_events (snd (fetch_proyecto_id_from_tramitacion w bol s))
                (snd (fetch_proyecto_id_from_tramitacion w' bol
                       (snd (fetch_proyecto_id_from_tramitacion w bol s))))))
   \<and>
   (project \<noteq> [] \<and> project_urgencies s (cache_key project bol) = None \<and>
    urgencias_stage_fails w project bol s \<longrightarrow>
      fst (fetch_urgencias w project bol s) = [] \<and>
      project_urgencies (snd (fetch_urgencias w project bol s)) = project_urgencies s \<and>
      Get (urgencias_url project bol)
        \<in> set (new_events (snd (fetch_urgencias w project bol s))
                (snd (fetch_urgencias w' project bol (snd (fetch_urgencias w project bol s))))))
   \<and>
   (no_empty_cached s \<longrightarrow>
      no_empty_cached (snd (fetch_boletin_for_vote w vote s)) \<and>
      no_empty_cached (snd (fetch_proyecto_id_from_tramitacion w bol s)))"
proof -
  have a: "(no_empty_cached s \<and> fst (fetch_boletin_for_vote w vote s) = [] \<longrightarrow>
          vote_to_boletin (snd (fetch_boletin_for_vote w vote s)) = vote_to_boletin s \<and>
          vote_to_boletin (snd (fetch_boletin_for_vote w vote s)) vote = None \<and>
          Get (vote_url vote)
            \<in> set (new_events (snd (fetch_boletin_for_vote w vote s))
                    (snd (fetch_boletin_for_vote w' vote (snd (fetch_boletin_for_vote w vote s))))))"
    using no_value_stage1 [of s w vote w'] by blast
  have b: "(no_empty_cached s \<and> bol \<noteq> [] \<and> fst (fetch_proyecto_id_from_tramitacion w bol s) = [] \<longrightarrow>
          boletin_to_project_id (snd (fetch_proyecto_id_from_tramitacion w bol s))
            = boletin_to_project_id s \<and>
          boletin_to_project_id (snd (fetch_proyecto_id_from_tramitacion w bol s)) bol = None \<and>
          Get (tramitacion_url bol)
            \<in> set (new_events (snd (fetch_proyecto_id_from_tramitacion w bol s))
                    (snd (fetch_proyecto_id_from_tramitacion w' bol
                           (snd (fetch_proyecto_id_from_tramitacion w bol s))))))"
    using no_value_stage2 [of s bol w w'] by blast
  have c: "(project \<noteq> [] \<and> project_urgencies s (cache_key project bol) = None \<and>
        urgencias_stage_fails w project bol s \<longrightarrow>
          fst (fetch_urgencias w project bol s) = [] \<and>
          project_urgencies (snd (fetch_urgencias w project bol s)) = project_urgencies s \<and>
          Get (urgencias_url project bol)
            \<in> set (new_events (snd (fetch_urgencias w project bol s))
                    (snd (fetch_urgencias w' project bol (snd (fetch_urgencias w project bol s))))))"
    using no_value_stage3 [of project s bol w w'] by blast
  have d: "(no_empty_cached s \<longrightarrow>
          no_empty_cached (snd (fetch_boletin_for_vote w vote s)) \<and>
          no_empty_cached (snd (fetch_proyecto_id_from_tramitacion w bol s)))"
    using no_empty_cached_stage1 [of s w vote] no_empty_cached_stage2 [of s w bol] by blast
  show ?thesis
    by (rule conjI [OF a conjI [OF b conjI [OF c d]]])
qed

theorem no_value_not_cached_witness:
  "no_empty_cached init_state \<and>
   fst (fetch_boletin_for_vote w_fail ''1'' init_state) = [] \<and>
   vote_to_boletin (snd (fetch_boletin_for_vote w_fail ''1'' init_state)) ''1'' = None \<and>
   Get (vote_url ''1'')
     \<in> set (new_events (snd (fetch_boletin_for_vote w_fail ''1'' init_state))
             (snd (fetch_boletin_for_vote w_demo ''1''
                    (snd (fetch_boletin_for_vote w_fail ''1'' init_state))))) \<and>
   fst (fetch_proyecto_id_from_tramitacion w_fail ''B'' init_state) = [] \<and>
   boletin_to_project_id (snd (fetch_proyecto_id_from_tramitacion w_fail ''B'' init_state)) ''B''
     = None \<and>
   Get (tramitacion_url ''B'')
     \<in> set (new_events (snd (fetch_proyecto_id_from_tramitacion w_fail ''B'' init_state))
             (snd (fetch_proyecto_id_from_tramitacion w_demo ''B''
                    (snd (fetch_proyecto_id_from_tramitacion w_fail ''B'' init_state))))) \<and>
   urgencias_stage_fails w_fail ''7'' ''B'' init_state \<and>
   project_urgencies (snd (fetch_urgencias w_fail ''7'' ''B'' init_state))
     = project_urgencies init_state \<and>
   Get (urgencias_url ''7'' ''B'')
     \<in> set (new_events (snd (fetch_urgencias w_fail ''7'' ''B'' init_state))
             (snd (fetch_urgencias w_demo ''7'' ''B''
                    (snd (fetch_urgencias w_fail ''7'' ''B'' init_state)))))"
proof -
  note t = no_value_not_cached [where s = init_state and w = w_fail and vote = "''1''"
      and w' = w_demo and bol = "''B''" and project = "''7''"]
  have h1: "fst (fetch_boletin_for_vote w_fail ''1'' init_state) = []"
    by (simp add: run_defs w_fail_def)
  have h2: "fst (fetch_proyecto_id_from_tramitacion w_fail ''B'' init_state) = []"
    by (simp add: run_defs w_fail_def)
  have h3: "urgencias_stage_fails w_fail ''7'' ''B'' init_state"
    by (simp add: urgencias_stage_fails_def run_defs w_fail_def)
  have h4: "''B'' \<noteq> ([] :: string)" "''7'' \<noteq> ([] :: string)"
      "project_urgencies init_state (cache_key ''7'' ''B'') = None"
    by (simp_all add: init_state_def)
  have c1: "vote_to_boletin (snd (fetch_boletin_for_vote w_fail ''1'' init_state)) ''1'' = None \<and>
    Get (vote_url ''1'')
     \<in> set (new_events (snd (fetch_boletin_for_vote w_fail ''1'' init_state))
             (snd (fetch_boletin_for_vote w_demo ''1''
                    (snd (fetch_boletin_for_vote w_fail ''1'' init_state)))))"
    using conjunct1 [OF t] no_empty_cached_init h1 by blast
  have c2: "boletin_to_project_id (snd (fetch_proyecto_id_from_tramitacion w_fail ''B'' init_state)) ''B''
     = None \<and>
   Get (tramitacion_url ''B'')
     \<in> set (new_events (snd (fetch_proyecto_id_from_tramitacion w_fail ''B'' init_state))
             (snd (fetch_proyecto_id_from_tramitacion w_demo ''B''
                    (snd (fetch_proyecto_id_from_tramitacion w_fail ''B'' init_state)))))"
    using conjunct1 [OF conjunct2 [OF t]] no_empty_cached_init h2 h4(1) by blast
  have c3: "project_urgencies (snd (fetch_urgencias w_fail ''7'' ''B'' init_state))
     = project_urgencies init_state \<and>
   Get (urgencias_url ''7'' ''B'')
     \<in> set (new_events (snd (fetch_urgencias w_fail ''7'' ''B'' init_state))
             (snd (fetch_urgencias w_demo ''7'' ''B''
                    (snd (fetch_urgencias w_fail ''7'' ''B'' init_state)))))"
    using conjunct1 [OF conjunct2 [OF conjunct2 [OF t]]] h3 h4(2,3) by blast
  show ?thesis
    using no_empty_cached_init h1 h2 h3 c1 c2 c3 by blast
qed

end
